(* ===== verification/Transport_Base.thy ===== *)
theory Transport_Base
  imports Main "HOL-Library.Word"
begin

unbundle bit_operations_syntax

text \<open>
  The prelude of the development: names for the machine types, the values that stand for
  Rust's panics, polls and I/O errors, checked indexing of slices, and the list lemmas that
  several components share.

  Conventions of all theories.
  \<^item> A \<open>Vec<u8>\<close>, \<open>&[u8]\<close>, \<open>Bytes\<close> or \<open>BytesMut\<close> is the list of its bytes; a \<open>&mut [u8]\<close>
    argument is passed in and handed back as a list.
  \<^item> A \<open>usize\<close> that counts bytes of a slice is a \<open>nat\<close>: a slice has fewer than \<open>2 ^ 63\<close>
    elements, so sums of lengths do not overflow on the 64-bit targets of the crate. Casts to
    narrower integers are written out on words.
  \<^item> A Rust panic is the value \<open>Panic\<close>; an \<open>Err\<close> is the left side of a sum.
  \<^item> What the operating system, tokio, quinn, h3 and hyper answer is an argument of the
    definitions (a function, or a list of answers in the order the code asks for them).
\<close>

section \<open>Types\<close>

type_synonym u8 = "8 word"
type_synonym u16 = "16 word"
type_synonym u32 = "32 word"
type_synonym u64 = "64 word"
type_synonym bytes = "u8 list"

named_theorems slice_simps \<open>checked access to slices\<close>
named_theorems wire_simps \<open>what the operations put on the wire\<close>
named_theorems step_intros \<open>introduction rules of the step relations\<close>

datatype 'a rust = Panic | Ret 'a

datatype 'a poll = Pending | Ready 'a

primrec rust_bind :: "'a rust \<Rightarrow> ('a \<Rightarrow> 'b rust) \<Rightarrow> 'b rust" where
  "rust_bind Panic f = Panic"
| "rust_bind (Ret x) f = f x"

lemma rust_bind_eq_Ret:
  "rust_bind m f = Ret y \<longleftrightarrow> (\<exists>x. m = Ret x \<and> f x = Ret y)"
  by (cases m) auto

lemma rust_bind_eq_Panic:
  "rust_bind m f = Panic \<longleftrightarrow> m = Panic \<or> (\<exists>x. m = Ret x \<and> f x = Panic)"
  by (cases m) auto

lemma rust_bind_cong [fundef_cong]:
  assumes "m = m'" and "\<And>x. m' = Ret x \<Longrightarrow> f x = f' x"
  shows "rust_bind m f = rust_bind m' f'"
  using assms by (cases m') auto

section \<open>I/O errors\<close>

text \<open>
  \<open>std::io::ErrorKind\<close>: the kinds the code compares with, and \<open>Other_kind\<close> for the rest.
  An \<open>std::io::Error\<close> is an OS error (its raw code and the kind std decodes it to), a bare
  kind, a kind with a message, or a kind with a boxed cause; the last two are what
  \<open>io::Error::other\<close> builds.
\<close>

datatype error_kind = Would_block | Connection_reset | Other | Other_kind nat

datatype io_error =
    Os_error int error_kind
  | Simple_error error_kind
  | Message_error error_kind string
  | Custom_error error_kind io_error

type_synonym 'a io_result = "io_error + 'a"

primrec io_kind :: "io_error \<Rightarrow> error_kind" where
  "io_kind (Os_error code k) = k"
| "io_kind (Simple_error k) = k"
| "io_kind (Message_error k msg) = k"
| "io_kind (Custom_error k e) = k"

primrec raw_os_error :: "io_error \<Rightarrow> int option" where
  "raw_os_error (Os_error code k) = Some code"
| "raw_os_error (Simple_error k) = None"
| "raw_os_error (Message_error k msg) = None"
| "raw_os_error (Custom_error k e) = None"

definition io_other :: "io_error \<Rightarrow> io_error" where
  "io_other e = Custom_error Other e"

lemma io_kind_other [simp]: "io_kind (io_other e) = Other"
  by (simp add: io_other_def)

section \<open>Socket addresses\<close>

text \<open>
  \<open>std::net::SocketAddr\<close>: the IPv4 address and port, or the IPv6 address, port, flow label and
  scope.
\<close>

datatype socket_addr =
    Addr_v4 u32 u16
  | Addr_v6 "128 word" u16 u32 u32

datatype ip_addr = Ip_v4 u32 | Ip_v6 "128 word"

primrec addr_port :: "socket_addr \<Rightarrow> u16" where
  "addr_port (Addr_v4 a p) = p"
| "addr_port (Addr_v6 a p f s) = p"

primrec is_ipv4 :: "socket_addr \<Rightarrow> bool" where
  "is_ipv4 (Addr_v4 a p) = True"
| "is_ipv4 (Addr_v6 a p f s) = False"

section \<open>Durations\<close>

text \<open>A \<open>Duration\<close> is its number of nanoseconds.\<close>

type_synonym duration = nat

definition from_millis :: "nat \<Rightarrow> duration" where
  "from_millis n = n * 1000000"

definition from_secs :: "nat \<Rightarrow> duration" where
  "from_secs n = n * 1000000000"

definition as_millis :: "duration \<Rightarrow> nat" where
  "as_millis d = d div 1000000"

lemma as_millis_from_millis [simp]: "as_millis (from_millis n) = n"
  by (simp add: as_millis_def from_millis_def)

section \<open>anyhow errors\<close>

text \<open>
  An \<open>anyhow::Error\<close> is its chain of messages, the outermost context first. \<open>{e}\<close> prints
  the head, \<open>{e:#}\<close> the whole chain with \<open>": "\<close> between the messages.
\<close>

type_synonym anyhow = "string list"

definition context_of :: "string \<Rightarrow> anyhow \<Rightarrow> anyhow" where
  "context_of msg e = msg # e"

fun join_with :: "string \<Rightarrow> string list \<Rightarrow> string" where
  "join_with sep [] = []"
| "join_with sep [x] = x"
| "join_with sep (x # y # ys) = x @ sep @ join_with sep (y # ys)"

definition show_chain :: "anyhow \<Rightarrow> string" where
  "show_chain e = join_with '': '' e"

section \<open>Decimal numbers\<close>

text \<open>\<open>Display\<close> of an unsigned integer.\<close>

definition digit_char :: "nat \<Rightarrow> char" where
  "digit_char d = char_of (48 + d)"

fun show_nat :: "nat \<Rightarrow> string" where
  "show_nat n = (if n < 10 then [digit_char n] else show_nat (n div 10) @ [digit_char (n mod 10)])"

declare show_nat.simps [simp del]

section \<open>Checked access to slices\<close>

text \<open>Rust indexing panics out of range; \<open>xs ! i\<close> and \<open>xs[i := x]\<close> do not say so.\<close>

definition get_at :: "'a list \<Rightarrow> nat \<Rightarrow> 'a rust" where
  "get_at xs i = (if i < length xs then Ret (xs ! i) else Panic)"

definition set_at :: "'a list \<Rightarrow> nat \<Rightarrow> 'a \<Rightarrow> 'a list rust" where
  "set_at xs i x = (if i < length xs then Ret (xs[i := x]) else Panic)"

definition slice_to :: "'a list \<Rightarrow> nat \<Rightarrow> 'a list rust" where
  "slice_to xs n = (if n \<le> length xs then Ret (take n xs) else Panic)"

lemma get_at_in [slice_simps]: "i < length xs \<Longrightarrow> get_at xs i = Ret (xs ! i)"
  and get_at_out [slice_simps]: "\<not> i < length xs \<Longrightarrow> get_at xs i = Panic"
  by (simp_all add: get_at_def)

lemma set_at_in [slice_simps]: "i < length xs \<Longrightarrow> set_at xs i x = Ret (xs[i := x])"
  and set_at_out [slice_simps]: "\<not> i < length xs \<Longrightarrow> set_at xs i x = Panic"
  by (simp_all add: set_at_def)

lemma slice_to_in [slice_simps]: "n \<le> length xs \<Longrightarrow> slice_to xs n = Ret (take n xs)"
  and slice_to_out [slice_simps]: "\<not> n \<le> length xs \<Longrightarrow> slice_to xs n = Panic"
  by (simp_all add: slice_to_def)

section \<open>Lists\<close>

lemma take_Suc_update:
  "n < length xs \<Longrightarrow> take (Suc n) (xs[n := x]) = take n xs @ [x]"
  by (simp add: take_Suc_conv_app_nth)

lemma nth_apply_at:
  "j < length xs \<Longrightarrow> xs[i := f (xs ! i)] ! j = (if j = i then f (xs ! j) else xs ! j)"
  by simp

lemma sum_list_map_update:
  "k < length xs \<Longrightarrow>
     sum_list (map f (xs[k := y])) + f (xs ! k) = sum_list (map f xs) + (f y :: 'b::comm_monoid_add)"
  by (induction xs arbitrary: k) (auto split: nat.splits simp: ac_simps)

lemma xor_cancel_right [simp]: "((a :: 'w::len word) XOR k) XOR k = a"
  by (simp add: xor.assoc)

lemma xor_right_eq_iff: "((a :: 'w::len word) XOR k = a XOR l) \<longleftrightarrow> k = l"
  by (metis xor.assoc xor.commute xor_cancel_right)

lemma xor_other_key: "((a :: 'w::len word) XOR k) XOR l = a \<longleftrightarrow> l = k"
  by (metis xor.assoc xor.commute xor_cancel_right)

end
