(* ===== verification/Salamander.thy ===== *)
theory Salamander
  imports Transport_Base
begin

text \<open>
  Salamander datagram obfuscation (\<open>src/src/salamander.rs\<close>). BLAKE2b-256 is code of the
  \<open>blake2\<close> crate: it is the argument \<open>blake\<close> of the definitions, and the lemmas need of it only
  that a digest has 32 bytes (\<open>digest32\<close>), which is the array type of \<open>key\<close>. The random salt
  is an argument too, as in the code. Both operations are the loops of the source over mutable
  slices, with the panics of slice indexing; \<open>deobfuscate_in_place\<close> shifts the datagram left
  inside the buffer it reads from.

  The lemmas give each loop in closed form (\<open>xor_stream\<close>), say exactly when it panics, and
  derive the round trip and the effect of a wrong key.
\<close>

section \<open>Definitions\<close>

definition SALT_LEN :: nat where "SALT_LEN = 8"

definition KEY_LEN :: nat where "KEY_LEN = 32"

record salamander =
  sal_psk :: bytes

definition salamander_new :: "bytes \<Rightarrow> salamander" where
  "salamander_new k = \<lparr>sal_psk = k\<rparr>"

definition salamander_key :: "(bytes \<Rightarrow> bytes) \<Rightarrow> salamander \<Rightarrow> bytes \<Rightarrow> bytes" where
  "salamander_key blake s salt = blake (sal_psk s @ salt)"

text \<open>\<open>out[..n].copy_from_slice(src)\<close>: panics when the slice or the lengths do not fit.\<close>

definition copy_to_front :: "bytes \<Rightarrow> nat \<Rightarrow> bytes \<Rightarrow> bytes rust" where
  "copy_to_front out n src =
     (if n \<le> length out \<and> length src = n then Ret (src @ drop n out) else Panic)"

fun obfuscate_loop :: "bytes \<Rightarrow> nat \<Rightarrow> bytes \<Rightarrow> bytes \<Rightarrow> bytes rust" where
  "obfuscate_loop key i [] out = Ret out"
| "obfuscate_loop key i (b # plain) out =
     rust_bind (get_at key (i mod KEY_LEN)) (\<lambda>k.
     rust_bind (set_at out (SALT_LEN + i) (b XOR k)) (\<lambda>out'.
     obfuscate_loop key (Suc i) plain out'))"

definition obfuscate ::
  "(bytes \<Rightarrow> bytes) \<Rightarrow> salamander \<Rightarrow> bytes \<Rightarrow> bytes \<Rightarrow> bytes \<Rightarrow> (nat \<times> bytes) rust" where
  "obfuscate blake s plain salt out =
     rust_bind (copy_to_front out SALT_LEN salt) (\<lambda>out1.
     let key = salamander_key blake s salt in
     rust_bind (obfuscate_loop key 0 plain out1) (\<lambda>out2.
     Ret (SALT_LEN + length plain, out2)))"

text \<open>\<open>for i in 0..plain_len\<close>: \<open>n\<close> is the number of rounds left.\<close>

fun deobfuscate_loop :: "bytes \<Rightarrow> nat \<Rightarrow> nat \<Rightarrow> bytes \<Rightarrow> bytes rust" where
  "deobfuscate_loop key i 0 buf = Ret buf"
| "deobfuscate_loop key i (Suc n) buf =
     rust_bind (get_at buf (SALT_LEN + i)) (\<lambda>c.
     rust_bind (get_at key (i mod KEY_LEN)) (\<lambda>k.
     rust_bind (set_at buf i (c XOR k)) (\<lambda>buf'.
     deobfuscate_loop key (Suc i) n buf')))"

definition deobfuscate_in_place ::
  "(bytes \<Rightarrow> bytes) \<Rightarrow> salamander \<Rightarrow> bytes \<Rightarrow> nat \<Rightarrow> (nat option \<times> bytes) rust" where
  "deobfuscate_in_place blake s buf len =
     (if len < SALT_LEN then Ret (None, buf)
      else rust_bind (slice_to buf SALT_LEN) (\<lambda>salt.
        let key = salamander_key blake s salt; plain_len = len - SALT_LEN in
        rust_bind (deobfuscate_loop key 0 plain_len buf) (\<lambda>buf'.
        Ret (Some plain_len, buf'))))"

section \<open>The loops in closed form\<close>

definition digest32 :: "(bytes \<Rightarrow> bytes) \<Rightarrow> bool" where
  "digest32 blake \<longleftrightarrow> (\<forall>x. length (blake x) = KEY_LEN)"

definition xor_stream :: "bytes \<Rightarrow> bytes \<Rightarrow> bytes" where
  "xor_stream key xs = map (\<lambda>i. xs ! i XOR key ! (i mod KEY_LEN)) [0..<length xs]"

text \<open>The datagram on the wire: the salt, then the body under the repeated key.\<close>

definition wire_of :: "(bytes \<Rightarrow> bytes) \<Rightarrow> salamander \<Rightarrow> bytes \<Rightarrow> bytes \<Rightarrow> bytes" where
  "wire_of blake s salt plain = salt @ xor_stream (salamander_key blake s salt) plain"

lemma KEY_LEN_pos [simp]: "i mod KEY_LEN < KEY_LEN"
  by (simp add: KEY_LEN_def)

lemma length_salamander_key: "digest32 blake \<Longrightarrow> length (salamander_key blake s salt) = KEY_LEN"
  by (simp add: digest32_def salamander_key_def)

lemma length_xor_stream [simp]: "length (xor_stream key xs) = length xs"
  by (simp add: xor_stream_def)

lemma xor_stream_nth: "i < length xs \<Longrightarrow> xor_stream key xs ! i = xs ! i XOR key ! (i mod KEY_LEN)"
  by (simp add: xor_stream_def)

lemma xor_stream_twice [simp]: "xor_stream key (xor_stream key xs) = xs"
  by (rule nth_equalityI) (simp_all add: xor_stream_nth)

lemma obfuscate_loop_done:
  assumes "length key = KEY_LEN" and "SALT_LEN + i + length plain \<le> length out"
  shows "obfuscate_loop key i plain out =
    Ret (take (SALT_LEN + i) out
         @ map (\<lambda>j. plain ! j XOR key ! ((i + j) mod KEY_LEN)) [0..<length plain]
         @ drop (SALT_LEN + i + length plain) out)"
  using assms
proof (induction plain arbitrary: i out)
  case (Cons b plain)
  let ?o = "out[SALT_LEN + i := b XOR key ! (i mod KEY_LEN)]"
  from Cons.prems have step: "obfuscate_loop key i (b # plain) out = obfuscate_loop key (Suc i) plain ?o"
    by (simp add: slice_simps)
  have "SALT_LEN + Suc i + length plain \<le> length ?o" using Cons.prems by simp
  from Cons.IH [OF Cons.prems(1) this]
  have "obfuscate_loop key (Suc i) plain ?o =
    Ret (take (Suc (SALT_LEN + i)) ?o
         @ map (\<lambda>j. plain ! j XOR key ! ((Suc i + j) mod KEY_LEN)) [0..<length plain]
         @ drop (SALT_LEN + Suc i + length plain) ?o)" by simp
  moreover have "map (\<lambda>j. (b # plain) ! j XOR key ! ((i + j) mod KEY_LEN)) [0..<Suc (length plain)] =
     (b XOR key ! (i mod KEY_LEN))
       # map (\<lambda>j. plain ! j XOR key ! ((Suc i + j) mod KEY_LEN)) [0..<length plain]"
    by (simp add: upt_conv_Cons map_Suc_upt [symmetric] o_def del: upt_Suc)
  ultimately show ?case using Cons.prems step
    by (simp add: take_Suc_update drop_update_cancel)
qed simp

lemma obfuscate_loop_panics:
  assumes "length key = KEY_LEN" and "length out < SALT_LEN + i + length plain" and "plain \<noteq> []"
  shows "obfuscate_loop key i plain out = Panic"
  using assms
proof (induction plain arbitrary: i out)
  case (Cons b plain)
  show ?case
  proof (cases "SALT_LEN + i < length out")
    case True
    then have "plain \<noteq> []" using Cons.prems by auto
    with Cons True show ?thesis by (simp add: slice_simps)
  next
    case False
    with Cons.prems show ?thesis by (simp add: slice_simps)
  qed
qed simp

lemma deobfuscate_loop_done:
  assumes "length key = KEY_LEN" and "SALT_LEN + i + n \<le> length buf"
  shows "deobfuscate_loop key i n buf =
    Ret (take i buf
         @ map (\<lambda>j. buf ! (SALT_LEN + j) XOR key ! (j mod KEY_LEN)) [i..<i + n]
         @ drop (i + n) buf)"
  using assms
proof (induction n arbitrary: i buf)
  case (Suc n)
  let ?b = "buf[i := buf ! (SALT_LEN + i) XOR key ! (i mod KEY_LEN)]"
  have i: "i < length buf" using Suc.prems by simp
  have step: "deobfuscate_loop key i (Suc n) buf = deobfuscate_loop key (Suc i) n ?b"
    using Suc.prems by (simp add: slice_simps)
  have "SALT_LEN + Suc i + n \<le> length ?b" using Suc.prems by simp
  from Suc.IH [OF Suc.prems(1) this]
  have "deobfuscate_loop key (Suc i) n ?b =
    Ret (take (Suc i) ?b
         @ map (\<lambda>j. ?b ! (SALT_LEN + j) XOR key ! (j mod KEY_LEN)) [Suc i..<Suc i + n]
         @ drop (Suc i + n) ?b)" .
  moreover have "map (\<lambda>j. ?b ! (SALT_LEN + j) XOR key ! (j mod KEY_LEN)) [Suc i..<Suc i + n] =
      map (\<lambda>j. buf ! (SALT_LEN + j) XOR key ! (j mod KEY_LEN)) [Suc i..<Suc i + n]"
    by (rule map_cong) auto
  moreover have "[i..<i + Suc n] = i # [Suc i..<Suc i + n]" by (simp add: upt_conv_Cons)
  ultimately show ?case using step i by (simp add: take_Suc_update drop_update_cancel)
qed simp

lemma deobfuscate_loop_panics:
  assumes "length buf < SALT_LEN + i + n" and "0 < n"
  shows "deobfuscate_loop key i n buf = Panic"
  using assms
proof (induction n arbitrary: i buf)
  case (Suc n)
  show ?case
  proof (cases "SALT_LEN + i < length buf")
    case True
    then have "0 < n" using Suc.prems by auto
    with Suc True show ?thesis by (cases "i mod KEY_LEN < length key") (simp_all add: slice_simps)
  next
    case False
    then show ?thesis by (simp add: slice_simps)
  qed
qed simp

section \<open>The operations in closed form\<close>

lemma obfuscate_done:
  assumes "digest32 blake" and "length salt = SALT_LEN" and "SALT_LEN + length plain \<le> length out"
  shows "obfuscate blake s plain salt out =
    Ret (SALT_LEN + length plain,
         wire_of blake s salt plain @ drop (SALT_LEN + length plain) out)"
proof -
  let ?o = "salt @ drop SALT_LEN out"
  have "SALT_LEN + 0 + length plain \<le> length ?o" using assms by simp
  from obfuscate_loop_done [OF length_salamander_key [OF assms(1)] this, of s salt]
  show ?thesis using assms
    by (simp add: obfuscate_def copy_to_front_def wire_of_def xor_stream_def Let_def add.commute)
qed

lemma obfuscate_short:
  assumes "digest32 blake" and "length salt = SALT_LEN" and "length out < SALT_LEN + length plain"
  shows "obfuscate blake s plain salt out = Panic"
proof (cases "SALT_LEN \<le> length out")
  case True
  then have "plain \<noteq> []" using assms by auto
  moreover have "length (salt @ drop SALT_LEN out) < SALT_LEN + 0 + length plain"
    using True assms by simp
  ultimately show ?thesis
    using True assms obfuscate_loop_panics [OF length_salamander_key [OF assms(1)]]
    by (simp add: obfuscate_def copy_to_front_def Let_def)
qed (simp add: obfuscate_def copy_to_front_def)

lemma deobfuscate_done:
  assumes "digest32 blake" and "SALT_LEN \<le> len" and "len \<le> length buf"
  shows "deobfuscate_in_place blake s buf len =
    Ret (Some (len - SALT_LEN),
         xor_stream (salamander_key blake s (take SALT_LEN buf)) (drop SALT_LEN (take len buf))
           @ drop (len - SALT_LEN) buf)"
proof -
  let ?key = "salamander_key blake s (take SALT_LEN buf)" and ?n = "len - SALT_LEN"
  have "SALT_LEN + 0 + ?n \<le> length buf" using assms by simp
  from deobfuscate_loop_done [OF length_salamander_key [OF assms(1)] this, of s "take SALT_LEN buf"]
  have loop: "deobfuscate_loop ?key 0 ?n buf =
    Ret (map (\<lambda>j. buf ! (SALT_LEN + j) XOR ?key ! (j mod KEY_LEN)) [0..<?n] @ drop ?n buf)"
    by simp
  have "map (\<lambda>j. buf ! (SALT_LEN + j) XOR ?key ! (j mod KEY_LEN)) [0..<?n] =
      xor_stream ?key (drop SALT_LEN (take len buf))"
    using assms by (intro nth_equalityI) (simp_all add: xor_stream_nth)
  then show ?thesis using assms loop
    by (simp add: deobfuscate_in_place_def slice_to_def Let_def)
qed

lemma deobfuscate_wire:
  assumes "digest32 blake" and "length salt = SALT_LEN"
  shows "deobfuscate_in_place blake s' (wire_of blake s salt plain @ tail) (SALT_LEN + length plain) =
    Ret (Some (length plain),
         xor_stream (salamander_key blake s' salt)
           (xor_stream (salamander_key blake s salt) plain)
         @ drop (length plain) (wire_of blake s salt plain @ tail))"
proof -
  let ?w = "wire_of blake s salt plain @ tail"
  have l: "SALT_LEN + length plain \<le> length ?w" using assms(2) by (simp add: wire_of_def)
  have "take SALT_LEN ?w = salt"
    and "drop SALT_LEN (take (SALT_LEN + length plain) ?w) =
      xor_stream (salamander_key blake s salt) plain"
    using assms(2) by (simp_all add: wire_of_def)
  with deobfuscate_done [OF assms(1) _ l, of s'] show ?thesis by simp
qed

lemma length_wire_of [wire_simps]:
  "length salt = SALT_LEN \<Longrightarrow> length (wire_of blake s salt plain) = SALT_LEN + length plain"
  by (simp add: wire_of_def)

text \<open>A buffer is never resized by the in-place pass.\<close>

lemma deobfuscate_length:
  "deobfuscate_in_place blake s buf len = Ret (r, buf') \<Longrightarrow> digest32 blake \<Longrightarrow> length buf' = length buf"
proof (cases "SALT_LEN \<le> len \<and> len \<le> length buf")
  case True
  assume a: "deobfuscate_in_place blake s buf len = Ret (r, buf')" "digest32 blake"
  with True deobfuscate_done [OF a(2), of len buf s] show ?thesis by auto
next
  case False
  assume a: "deobfuscate_in_place blake s buf len = Ret (r, buf')" "digest32 blake"
  show ?thesis
  proof (cases "len < SALT_LEN")
    case True
    with a show ?thesis by (simp add: deobfuscate_in_place_def)
  next
    case ge: False
    with False have "length buf < SALT_LEN + 0 + (len - SALT_LEN)" by simp
    with ge a show ?thesis
      by (cases "length buf < SALT_LEN"; cases "len = SALT_LEN")
         (auto simp: deobfuscate_in_place_def slice_to_def Let_def deobfuscate_loop_panics)
  qed
qed

section \<open>Properties\<close>

text \<open>
  C32: \<open>obfuscate\<close> writes exactly the salt and the body XORed with the repeated 32-byte key,
  leaves the rest of the output slice alone and reports the 8 bytes of overhead; it panics
  exactly when the slice is shorter than that.
\<close>

theorem obfuscate_exact:
  assumes "digest32 blake" and "length salt = SALT_LEN"
  shows "obfuscate blake s plain salt out =
    (if SALT_LEN + length plain \<le> length out
     then Ret (SALT_LEN + length plain,
       salt @ xor_stream (salamander_key blake s salt) plain @ drop (SALT_LEN + length plain) out)
     else Panic)"
  using obfuscate_done [OF assms, of plain out s] obfuscate_short [OF assms, of out plain s]
  by (simp add: wire_of_def)

theorem obfuscate_exact_witness:
  "obfuscate (\<lambda>_. replicate 32 3) \<lparr>sal_psk = [1]\<rparr> [5, 6] [0, 1, 2, 3, 4, 5, 6, 7] (replicate 11 9)
   = Ret (10, [0, 1, 2, 3, 4, 5, 6, 7, 6, 5, 9])"
proof -
  have h: "digest32 (\<lambda>_. replicate 32 3)" by (simp add: digest32_def KEY_LEN_def)
  have l: "length [0, 1, 2, 3, 4, 5, 6, 7 :: u8] = SALT_LEN" by (simp add: SALT_LEN_def)
  show ?thesis
    unfolding obfuscate_exact [OF h l]
    by (simp add: SALT_LEN_def KEY_LEN_def xor_stream_def salamander_key_def upt_rec)
qed

text \<open>
  C33: \<open>deobfuscate_in_place\<close>, the loop that shifts the datagram left inside its own buffer:
  a datagram shorter than the salt gives \<open>None\<close> and is not touched; one whose length the buffer
  does not hold panics; any other gives its length minus 8, the decoded body at the front of the
  buffer and the old bytes behind it.
\<close>

theorem deobfuscate_exact:
  assumes "digest32 blake"
  shows "deobfuscate_in_place blake s buf len =
    (if len < SALT_LEN then Ret (None, buf)
     else if length buf < len then Panic
     else Ret (Some (len - SALT_LEN),
       xor_stream (salamander_key blake s (take SALT_LEN buf)) (drop SALT_LEN (take len buf))
         @ drop (len - SALT_LEN) buf))"
proof -
  consider "len < SALT_LEN" | "SALT_LEN \<le> len" "length buf < len" | "SALT_LEN \<le> len" "len \<le> length buf"
    by fastforce
  then show ?thesis
  proof cases
    case 2
    then show ?thesis
      by (cases "length buf < SALT_LEN")
         (auto simp: deobfuscate_in_place_def slice_to_def Let_def deobfuscate_loop_panics)
  next
    case 3
    with deobfuscate_done [OF assms this, of s] show ?thesis by simp
  qed (simp add: deobfuscate_in_place_def)
qed

theorem deobfuscate_exact_witness:
  "deobfuscate_in_place (\<lambda>_. replicate 32 3) \<lparr>sal_psk = [1]\<rparr> [0, 1, 2, 3, 4, 5, 6, 7, 6, 5, 9] 10
   = Ret (Some 2, [5, 6, 2, 3, 4, 5, 6, 7, 6, 5, 9])"
proof -
  have h: "digest32 (\<lambda>_. replicate 32 3)" by (simp add: digest32_def KEY_LEN_def)
  show ?thesis
    unfolding deobfuscate_exact [OF h]
    by (simp add: SALT_LEN_def KEY_LEN_def xor_stream_def salamander_key_def upt_rec)
qed

text \<open>
  C2: Round trip, for every plaintext, salt, key and receive buffer: what one side writes with
  \<open>obfuscate\<close>, lying at the front of any larger receive buffer, the other side with the same PSK
  turns back into the plaintext in place, and the buffer keeps its size.
\<close>

theorem salamander_round_trip:
  assumes "digest32 blake" and "length salt = SALT_LEN"
    and "obfuscate blake s plain salt out = Ret (n, wire)"
  shows "\<exists>buf. deobfuscate_in_place blake s (take n wire @ tail) n = Ret (Some (length plain), buf)
    \<and> take (length plain) buf = plain \<and> length buf = n + length tail"
proof -
  from assms have n: "n = SALT_LEN + length plain"
    and w: "wire = wire_of blake s salt plain @ drop (SALT_LEN + length plain) out"
    using obfuscate_exact [OF assms(1,2), of s plain out] by (auto simp: wire_of_def split: if_splits)
  have "take n wire = wire_of blake s salt plain"
    using assms(2) by (simp add: n w wire_simps)
  with deobfuscate_wire [OF assms(1,2), of s s plain tail] show ?thesis
    using assms(2) by (simp add: n wire_simps)
qed

theorem salamander_round_trip_witness:
  "\<exists>buf. deobfuscate_in_place (\<lambda>x. replicate 32 (hd x)) \<lparr>sal_psk = [1]\<rparr>
      (take 10 [0, 1, 2, 3, 4, 5, 6, 7, 4, 7] @ [8]) 10 = Ret (Some 2, buf)
    \<and> take 2 buf = [5, 6 :: u8] \<and> length buf = 10 + 1"
proof -
  let ?b = "\<lambda>x :: bytes. replicate 32 (hd x)" and ?s = "\<lparr>sal_psk = [1]\<rparr>"
  have h: "digest32 ?b" by (simp add: digest32_def KEY_LEN_def)
  have l: "length [0, 1, 2, 3, 4, 5, 6, 7 :: u8] = SALT_LEN" by (simp add: SALT_LEN_def)
  have "obfuscate ?b ?s [5, 6] [0, 1, 2, 3, 4, 5, 6, 7]
      [0, 0, 0, 0, 0, 0, 0, 0, 0, 0] = Ret (10, [0, 1, 2, 3, 4, 5, 6, 7, 4, 7])"
    by (simp add: obfuscate_def copy_to_front_def set_at_def get_at_def salamander_key_def Let_def
        SALT_LEN_def KEY_LEN_def)
  from salamander_round_trip [OF h l this, of "[8]"] show ?thesis by (simp add: numeral_2_eq_2)
qed

text \<open>
  A receiver with another PSK decodes a datagram of the right length, and it is the
  plaintext only if the two keys of this packet agree on every byte that was used: there is no
  authentication tag, and the length alone never rejects.
\<close>

theorem other_psk_recovers_iff_keys_agree:
  assumes "digest32 blake" and "length salt = SALT_LEN"
  shows "\<exists>buf. deobfuscate_in_place blake s' (wire_of blake s salt plain) (SALT_LEN + length plain)
        = Ret (Some (length plain), buf)
    \<and> (take (length plain) buf = plain \<longleftrightarrow>
       (\<forall>i < length plain. salamander_key blake s' salt ! (i mod KEY_LEN)
                          = salamander_key blake s salt ! (i mod KEY_LEN)))"
proof -
  let ?k = "salamander_key blake s salt" and ?k' = "salamander_key blake s' salt"
  have "xor_stream ?k' (xor_stream ?k plain) = plain \<longleftrightarrow>
      (\<forall>i < length plain. (plain ! i XOR ?k ! (i mod KEY_LEN)) XOR ?k' ! (i mod KEY_LEN) = plain ! i)"
    by (auto simp: list_eq_iff_nth_eq xor_stream_nth)
  also have "\<dots> \<longleftrightarrow> (\<forall>i < length plain. ?k' ! (i mod KEY_LEN) = ?k ! (i mod KEY_LEN))"
    by (simp add: xor_other_key)
  finally show ?thesis
    using deobfuscate_wire [OF assms, of s' s plain "[]"] by simp
qed

theorem other_psk_recovers_iff_keys_agree_witness:
  "\<exists>buf. deobfuscate_in_place (\<lambda>x. replicate 32 (hd x)) \<lparr>sal_psk = [2]\<rparr>
      (wire_of (\<lambda>x. replicate 32 (hd x)) \<lparr>sal_psk = [1]\<rparr> (replicate 8 0) [5]) (SALT_LEN + 1)
        = Ret (Some 1, buf) \<and> take 1 buf \<noteq> [5]"
proof -
  let ?b = "\<lambda>x :: bytes. replicate 32 (hd x)"
  have h: "digest32 ?b" by (simp add: digest32_def KEY_LEN_def)
  have l: "length (replicate 8 (0 :: u8)) = SALT_LEN" by (simp add: SALT_LEN_def)
  from other_psk_recovers_iff_keys_agree [OF h l, of "\<lparr>sal_psk = [2]\<rparr>" "\<lparr>sal_psk = [1]\<rparr>" "[5]"]
  moreover have "\<not> (\<forall>i :: nat. 0 < i)" by auto
  ultimately show ?thesis by (simp add: salamander_key_def KEY_LEN_def)
qed

end
