(* ===== verification/Interfaces.thy ===== *)
theory Interfaces
  imports Transport_Base
begin

text \<open>
  Three interfaces that several components provide.

  \<open>polling_loop\<close>: a loop without a bound that looks again and again, \<open>look i\<close> being what the \<open>i\<close>-th
  look decides, if anything. \<open>loop i\<close> is the loop entered at the \<open>i\<close>-th look. The handover of a
  connection, the hold of the reachability check and the idle probe are such loops; they are partial
  functions, and that they return is \<open>returns\<close>.

  \<open>transition_invariant\<close>: a step relation and a predicate it keeps; the teardown of clients, a
  proxied call and an FFI call in concurrent use.

  \<open>refinement\<close>: such a relation against an abstract one: every step is a run of the specification, so
  what the specification keeps, the program keeps. A proxied call is a pipe, an FFI call is a channel
  whose operations are atomic.
\<close>

section \<open>Polling loops\<close>

locale polling_loop =
  fixes loop :: "nat \<Rightarrow> 'r option"
    and look :: "nat \<Rightarrow> 'r option"
  assumes loop_step: "loop i = (case look i of Some r \<Rightarrow> Some r | None \<Rightarrow> loop (Suc i))"
    and loop_looked: "loop 0 = Some r \<Longrightarrow> \<exists>n. look n \<noteq> None"
begin

lemma skips: "\<forall>m < n. look m = None \<Longrightarrow> loop 0 = loop n"
  by (induction n) (simp_all add: loop_step)

lemma first_look:
  assumes "look n = Some r" and "\<forall>m < n. look m = None"
  shows "loop 0 = Some r"
  using skips [OF assms(2)] assms(1) by (simp add: loop_step [of n])

lemma returns:
  assumes "look n \<noteq> None"
  shows "\<exists>k \<le> n. \<exists>r. look k = Some r \<and> (\<forall>m < k. look m = None) \<and> loop 0 = Some r"
proof -
  obtain k where k: "look k \<noteq> None" "\<forall>m < k. look m = None" "k \<le> n"
    using assms exists_least_iff [of "\<lambda>k. look k \<noteq> None"] by (metis not_le)
  then obtain r where "look k = Some r"
    by blast
  with k first_look [of k r] show ?thesis
    by blast
qed

lemma decides: "loop 0 = Some r \<longleftrightarrow> (\<exists>n. look n = Some r \<and> (\<forall>m < n. look m = None))"
proof
  assume run: "loop 0 = Some r"
  then obtain n where "look n \<noteq> None"
    using loop_looked by blast
  with run show "\<exists>n. look n = Some r \<and> (\<forall>m < n. look m = None)"
    using returns by fastforce
qed (blast intro: first_look)

end

section \<open>Step relations\<close>

locale transition_invariant =
  fixes trans :: "'s \<Rightarrow> 's \<Rightarrow> bool"
    and holds :: "'s \<Rightarrow> bool"
  assumes kept: "trans s s' \<Longrightarrow> holds s \<Longrightarrow> holds s'"
begin

lemma reached: "trans\<^sup>*\<^sup>* s s' \<Longrightarrow> holds s \<Longrightarrow> holds s'"
  by (induction rule: rtranclp_induct) (auto intro: kept)

end

section \<open>Refinement of an abstract relation\<close>

locale refinement = transition_invariant trans holds
  for trans :: "'s \<Rightarrow> 's \<Rightarrow> bool" and holds :: "'s \<Rightarrow> bool" +
  fixes spec :: "'a \<Rightarrow> 'a \<Rightarrow> bool"
    and abs :: "'s \<Rightarrow> 'a"
  assumes simulates: "trans s s' \<Longrightarrow> holds s \<Longrightarrow> spec\<^sup>*\<^sup>* (abs s) (abs s')"
begin

lemma refines: "trans\<^sup>*\<^sup>* s s' \<Longrightarrow> holds s \<Longrightarrow> spec\<^sup>*\<^sup>* (abs s) (abs s')"
proof (induction rule: rtranclp_induct)
  case (step s1 s2)
  with reached have "holds s1"
    by blast
  with step simulates [of s1 s2] show ?case
    by simp
qed simp

lemma inherits:
  assumes "transition_invariant spec good"
    and "trans\<^sup>*\<^sup>* s s'" and "holds s" and "good (abs s)"
  shows "good (abs s')"
  using transition_invariant.reached [OF assms(1) refines [OF assms(2,3)] assms(4)] .

end

end
