(* ===== verification/Spin_Free_Socket.thy ===== *)
theory Spin_Free_Socket
  imports Interfaces
begin

text \<open>
  The UDP socket that ends an endpoint poll on a real error
  (\<open>src/src/spin_free_socket.rs\<close>): the two classifications, the process-wide error counters, the
  per-socket receive counter, and the \<open>try_send\<close> and \<open>poll_recv\<close> handlers.

  What tokio and quinn-udp answer is part of the state as a list of answers still to come. One
  \<open>recv_round\<close> is one turn of the receive loop: the answer of \<open>poll_recv_ready\<close> and, where the
  socket is ready, that of \<open>try_io\<close> with the changes it makes to the buffers. An exhausted list
  is a socket that is not ready.

  The lemmas: one poll performs no attempt after the first that does not park, counts what it
  must and maps the error (\<open>spin_poll_recv_spec\<close>); \<open>spin_inv\<close> is what the callers need of the
  answers.
\<close>

section \<open>Datagram descriptors of quinn-udp\<close>

record recv_meta =
  rm_addr :: socket_addr
  rm_len :: nat
  rm_stride :: nat
  rm_ecn :: "u8 option"
  rm_dst_ip :: "ip_addr option"

record transmit =
  tx_destination :: socket_addr
  tx_ecn :: "u8 option"
  tx_contents :: bytes
  tx_segment_size :: "nat option"
  tx_src_ip :: "ip_addr option"

section \<open>The classifications\<close>

datatype recv_disposition = Deliver nat | Park | Fail_endpoint

definition recv_disposition_of :: "nat io_result \<Rightarrow> recv_disposition" where
  "recv_disposition_of result =
     (case result of
        Inr n \<Rightarrow> Deliver n
      | Inl e \<Rightarrow> if io_kind e = Would_block then Park else Fail_endpoint)"

definition endpoint_receive_error :: "io_error \<Rightarrow> io_error" where
  "endpoint_receive_error e = (if io_kind e = Connection_reset then io_other e else e)"

datatype send_disposition = Sent | Send_would_block | Probe_too_large | Failed

text \<open>\<open>libc::EMSGSIZE\<close> differs per platform; it is the argument \<open>emsgsize\<close>.\<close>

definition send_disposition_of :: "int \<Rightarrow> unit io_result \<Rightarrow> send_disposition" where
  "send_disposition_of emsgsize result =
     (case result of
        Inr _ \<Rightarrow> Sent
      | Inl e \<Rightarrow>
          if io_kind e = Would_block then Send_would_block
          else if raw_os_error e = Some emsgsize then Probe_too_large
          else Failed)"

section \<open>The socket\<close>

datatype recv_round =
    Not_ready
  | Ready_error io_error
  | Attempt "nat io_result" "bytes list \<times> recv_meta list \<Rightarrow> bytes list \<times> recv_meta list"

record spin_socket =
  spin_recv_errors :: u64
  spin_send_errors :: u64
  spin_received :: u64
  spin_reads :: "recv_round list"
  spin_writes :: "(transmit \<Rightarrow> unit io_result) list"

definition recv_errors :: "spin_socket \<Rightarrow> u64" where
  "recv_errors st = spin_recv_errors st"

definition send_errors :: "spin_socket \<Rightarrow> u64" where
  "send_errors st = spin_send_errors st"

definition received_datagrams :: "spin_socket \<Rightarrow> u64" where
  "received_datagrams st = spin_received st"

text \<open>\<open>bind\<close> and \<open>wrap\<close>: each step of the set-up may fail; the counter starts at 0.\<close>

definition spin_wrap ::
  "unit io_result \<Rightarrow> unit io_result \<Rightarrow> unit io_result \<Rightarrow> spin_socket \<Rightarrow> spin_socket io_result" where
  "spin_wrap nonblocking udp_state from_std st =
     (case nonblocking of Inl e \<Rightarrow> Inl e | Inr _ \<Rightarrow>
      case udp_state of Inl e \<Rightarrow> Inl e | Inr _ \<Rightarrow>
      case from_std of Inl e \<Rightarrow> Inl e | Inr _ \<Rightarrow> Inr (st\<lparr>spin_received := 0\<rparr>))"

definition spin_bind ::
  "unit io_result \<Rightarrow> unit io_result \<Rightarrow> unit io_result \<Rightarrow> unit io_result \<Rightarrow> spin_socket
     \<Rightarrow> spin_socket io_result" where
  "spin_bind std_bind nonblocking udp_state from_std st =
     (case std_bind of Inl e \<Rightarrow> Inl e | Inr _ \<Rightarrow> spin_wrap nonblocking udp_state from_std st)"

text \<open>\<open>try_io\<close> on a socket that is not writable answers \<open>WouldBlock\<close>.\<close>

definition spin_try_send :: "int \<Rightarrow> spin_socket \<Rightarrow> transmit \<Rightarrow> unit io_result \<times> spin_socket" where
  "spin_try_send emsgsize st tr =
     (let (result, st1) = (case spin_writes st of
             [] \<Rightarrow> (Inl (Simple_error Would_block), st)
           | w # ws \<Rightarrow> (w tr, st\<lparr>spin_writes := ws\<rparr>))
      in case send_disposition_of emsgsize result of
           Sent \<Rightarrow> (Inr (), st1)
         | Probe_too_large \<Rightarrow> (Inr (), st1)
         | Send_would_block \<Rightarrow> (result, st1)
         | Failed \<Rightarrow> (Inr (), st1\<lparr>spin_send_errors := spin_send_errors st1 + 1\<rparr>))"

text \<open>
  The outcome of one poll: what is returned, the buffers and descriptors, the socket. The
  \<open>expect_err\<close> of the failing branch is a panic on \<open>Ok\<close>.
\<close>

type_synonym 's recv_outcome = "(nat io_result poll \<times> (bytes list \<times> recv_meta list) \<times> 's) rust"

fun spin_recv_loop ::
  "recv_round list \<Rightarrow> bytes list \<times> recv_meta list \<Rightarrow> spin_socket \<Rightarrow> spin_socket recv_outcome" where
  "spin_recv_loop [] bm st = Ret (Pending, bm, st\<lparr>spin_reads := []\<rparr>)"
| "spin_recv_loop (Not_ready # rs) bm st = Ret (Pending, bm, st\<lparr>spin_reads := rs\<rparr>)"
| "spin_recv_loop (Ready_error e # rs) bm st = Ret (Ready (Inl e), bm, st\<lparr>spin_reads := rs\<rparr>)"
| "spin_recv_loop (Attempt result g # rs) bm st =
     (case recv_disposition_of result of
        Deliver n \<Rightarrow>
          Ret (Ready (Inr n), g bm,
               st\<lparr>spin_received := spin_received st + of_nat n, spin_reads := rs\<rparr>)
      | Park \<Rightarrow> spin_recv_loop rs (g bm) st
      | Fail_endpoint \<Rightarrow>
          (case result of
             Inr n \<Rightarrow> Panic
           | Inl e \<Rightarrow>
               Ret (Ready (Inl (endpoint_receive_error e)), g bm,
                    st\<lparr>spin_recv_errors := spin_recv_errors st + 1, spin_reads := rs\<rparr>)))"

definition spin_poll_recv ::
  "spin_socket \<Rightarrow> bytes list \<times> recv_meta list \<Rightarrow> spin_socket recv_outcome" where
  "spin_poll_recv st bm = spin_recv_loop (spin_reads st) bm st"

text \<open>
  What the socket says of itself: the answers of tokio's socket and of quinn-udp's socket state,
  handed on, and the poller quinn waits on after \<open>WouldBlock\<close>.
\<close>

record socket_caps =
  sc_local_addr :: "socket_addr io_result"
  sc_may_fragment :: bool
  sc_max_gso :: nat
  sc_gro :: nat
  sc_send_ready :: "unit io_result poll"

definition spin_local_addr :: "socket_caps \<Rightarrow> socket_addr io_result" where
  "spin_local_addr caps = sc_local_addr caps"

definition spin_may_fragment :: "socket_caps \<Rightarrow> bool" where
  "spin_may_fragment caps = sc_may_fragment caps"

definition spin_max_transmit_segments :: "socket_caps \<Rightarrow> nat" where
  "spin_max_transmit_segments caps = sc_max_gso caps"

definition spin_max_receive_segments :: "socket_caps \<Rightarrow> nat" where
  "spin_max_receive_segments caps = sc_gro caps"

definition poll_writable :: "socket_caps \<Rightarrow> unit io_result poll" where
  "poll_writable caps = sc_send_ready caps"

text \<open>The \<open>Debug\<close> texts, which quinn prints with an endpoint.\<close>

definition spin_debug :: "(socket_addr \<Rightarrow> string) \<Rightarrow> socket_caps \<Rightarrow> string" where
  "spin_debug show_addr caps =
     ''SpinFreeUdpSocket { local_addr: ''
     @ (case sc_local_addr caps of Inl e \<Rightarrow> ''None'' | Inr a \<Rightarrow> ''Some('' @ show_addr a @ '')'')
     @ '', .. }''"

definition poller_debug :: string where
  "poller_debug = ''WritablePoller { .. }''"

section \<open>One poll in closed form\<close>

fun parked :: "recv_round \<Rightarrow> bool" where
  "parked (Attempt result g) \<longleftrightarrow> recv_disposition_of result = Park"
| "parked _ \<longleftrightarrow> False"

text \<open>The buffers after the rounds that parked.\<close>

fun apply_round :: "recv_round \<Rightarrow> bytes list \<times> recv_meta list \<Rightarrow> bytes list \<times> recv_meta list" where
  "apply_round (Attempt result g) bm = g bm"
| "apply_round _ bm = bm"

definition settle_round ::
  "recv_round list \<Rightarrow> bytes list \<times> recv_meta list \<Rightarrow> spin_socket \<Rightarrow> spin_socket recv_outcome" where
  "settle_round rounds bm st =
     (case rounds of
        [] \<Rightarrow> Ret (Pending, bm, st\<lparr>spin_reads := []\<rparr>)
      | Not_ready # rs \<Rightarrow> Ret (Pending, bm, st\<lparr>spin_reads := rs\<rparr>)
      | Ready_error e # rs \<Rightarrow> Ret (Ready (Inl e), bm, st\<lparr>spin_reads := rs\<rparr>)
      | Attempt (Inr n) g # rs \<Rightarrow>
          Ret (Ready (Inr n), g bm,
               st\<lparr>spin_received := spin_received st + of_nat n, spin_reads := rs\<rparr>)
      | Attempt (Inl e) g # rs \<Rightarrow>
          Ret (Ready (Inl (endpoint_receive_error e)), g bm,
               st\<lparr>spin_recv_errors := spin_recv_errors st + 1, spin_reads := rs\<rparr>))"

lemma recv_disposition_cases:
  "recv_disposition_of (Inr n) = Deliver n"
  "io_kind e = Would_block \<Longrightarrow> recv_disposition_of (Inl e) = Park"
  "io_kind e \<noteq> Would_block \<Longrightarrow> recv_disposition_of (Inl e) = Fail_endpoint"
  by (simp_all add: recv_disposition_of_def)

lemma spin_recv_loop_settles:
  "spin_recv_loop rounds bm st =
     settle_round (dropWhile parked rounds)
       (fold apply_round (takeWhile parked rounds) bm) st"
proof (induction rounds bm st rule: spin_recv_loop.induct)
  case (4 result g rs bm st)
  show ?case
  proof (cases result)
    case (Inl e)
    with 4 show ?thesis
      by (cases "io_kind e = Would_block") (simp_all add: recv_disposition_cases settle_round_def)
  qed (simp add: recv_disposition_cases settle_round_def)
qed (simp_all add: settle_round_def)

lemma spin_poll_recv_never_panics: "spin_poll_recv st bm \<noteq> Panic"
  unfolding spin_poll_recv_def spin_recv_loop_settles settle_round_def
  by (auto split: list.splits recv_round.splits sum.splits)

section \<open>What the callers need of the answers\<close>

text \<open>
  The documented contract of a \<open>recv\<close> into borrowed slices: no slice changes its length, and the
  number of datagrams and their lengths fit the slices that were passed.
\<close>

definition same_shape :: "bytes list \<times> recv_meta list \<Rightarrow> bytes list \<times> recv_meta list \<Rightarrow> bool" where
  "same_shape bm bm' \<longleftrightarrow>
     map length (fst bm') = map length (fst bm) \<and> length (snd bm') = length (snd bm)"

definition slots_fit :: "nat \<Rightarrow> bytes list \<times> recv_meta list \<Rightarrow> bool" where
  "slots_fit n bm \<longleftrightarrow> n \<le> length (fst bm) \<and> n \<le> length (snd bm)
     \<and> (\<forall>i < n. rm_len (snd bm ! i) \<le> length (fst bm ! i))"

text \<open>
  Whether an answer fits depends on the slices it is given: the contract of a socket is stated
  for the shape of the buffers that quinn polls with.
\<close>

fun round_ok :: "bytes list \<times> recv_meta list \<Rightarrow> recv_round \<Rightarrow> bool" where
  "round_ok bm (Attempt result g) \<longleftrightarrow>
     (\<forall>bm'. same_shape bm bm' \<longrightarrow>
        same_shape bm' (g bm') \<and> (\<forall>n. result = Inr n \<longrightarrow> slots_fit n (g bm')))"
| "round_ok bm _ \<longleftrightarrow> True"

definition spin_inv :: "spin_socket \<Rightarrow> bytes list \<times> recv_meta list \<Rightarrow> bool" where
  "spin_inv st bm \<longleftrightarrow> list_all (round_ok bm) (spin_reads st)"

declare split_paired_All [simp del]

lemma same_shape_refl [simp]: "same_shape bm bm"
  by (simp add: same_shape_def)

lemma same_shape_trans: "same_shape a b \<Longrightarrow> same_shape b c \<Longrightarrow> same_shape a c"
  by (simp add: same_shape_def)

lemma round_ok_shape: "same_shape a b \<Longrightarrow> round_ok a r \<Longrightarrow> round_ok b r"
  by (cases r) (auto intro: same_shape_trans)

lemma rounds_ok_shape: "same_shape a b \<Longrightarrow> list_all (round_ok a) rs \<Longrightarrow> list_all (round_ok b) rs"
  by (auto simp: list_all_iff intro: round_ok_shape)

lemma spin_inv_shape: "spin_inv st a \<Longrightarrow> same_shape a b \<Longrightarrow> spin_inv st b"
  by (simp add: spin_inv_def rounds_ok_shape)

lemma apply_rounds_shape:
  "list_all (round_ok bm) rounds \<Longrightarrow> same_shape bm (fold apply_round rounds bm)"
proof (induction rounds arbitrary: bm)
  case (Cons r rounds)
  then have one: "same_shape bm (apply_round r bm)" by (cases r) auto
  with Cons.prems have "list_all (round_ok (apply_round r bm)) rounds"
    using rounds_ok_shape by simp
  with one Cons.IH same_shape_trans show ?case by fastforce
qed simp

lemma list_all_dropWhile: "list_all P xs \<Longrightarrow> list_all P (dropWhile Q xs)"
  and list_all_takeWhile: "list_all P xs \<Longrightarrow> list_all P (takeWhile Q xs)"
  by (auto simp: list_all_iff dest: set_dropWhileD set_takeWhileD)

lemma settle_round_contract:
  assumes "list_all (round_ok bm) rounds" and "settle_round rounds bm st = Ret (p, bm', st')"
  shows "same_shape bm bm' \<and> (\<forall>n. p = Ready (Inr n) \<longrightarrow> slots_fit n bm')
    \<and> list_all (round_ok bm) (spin_reads st')"
  using assms
  by (auto simp: settle_round_def split: list.splits recv_round.splits sum.splits)

lemma spin_poll_recv_counts:
  "spin_poll_recv st bm = Ret (Ready (Inr n), bm', st') \<Longrightarrow>
     received_datagrams st' = received_datagrams st + of_nat n"
  unfolding spin_poll_recv_def spin_recv_loop_settles settle_round_def received_datagrams_def
  by (auto split: list.splits recv_round.splits sum.splits)

lemma spin_poll_recv_contract:
  assumes "spin_inv st bm" and "spin_poll_recv st bm = Ret (p, bm', st')"
  shows spin_poll_recv_shape: "same_shape bm bm'"
    and spin_poll_recv_fits: "p = Ready (Inr n) \<Longrightarrow> slots_fit n bm'"
    and spin_poll_recv_inv: "spin_inv st' bm'"
proof -
  let ?bm = "fold apply_round (takeWhile parked (spin_reads st)) bm"
  let ?rs = "dropWhile parked (spin_reads st)"
  have shape: "same_shape bm ?bm"
    using assms(1) by (simp add: spin_inv_def list_all_takeWhile apply_rounds_shape)
  then have ok: "list_all (round_ok ?bm) ?rs"
    using assms(1) rounds_ok_shape by (simp add: spin_inv_def list_all_dropWhile)
  have "settle_round ?rs ?bm st = Ret (p, bm', st')"
    using assms(2) by (simp add: spin_poll_recv_def spin_recv_loop_settles)
  from settle_round_contract [OF ok this]
  have c: "same_shape ?bm bm'" "p = Ready (Inr n) \<Longrightarrow> slots_fit n bm'"
    "list_all (round_ok ?bm) (spin_reads st')" by auto
  from c(2) show "p = Ready (Inr n) \<Longrightarrow> slots_fit n bm'" .
  from shape c(1) show "same_shape bm bm'" by (rule same_shape_trans)
  from rounds_ok_shape [OF c(1,3)] show "spin_inv st' bm'" by (simp add: spin_inv_def)
qed

section \<open>Counting\<close>

fun failing :: "recv_round \<Rightarrow> bool" where
  "failing (Attempt result g) \<longleftrightarrow> recv_disposition_of result = Fail_endpoint"
| "failing _ \<longleftrightarrow> False"

fun delivered :: "recv_round \<Rightarrow> nat" where
  "delivered (Attempt (Inr n) g) = n"
| "delivered _ = 0"

text \<open>The answers a poll used up, and what they did to the counters and the result.\<close>

definition accounts ::
  "spin_socket \<Rightarrow> recv_round list \<Rightarrow> nat io_result poll \<Rightarrow> spin_socket \<Rightarrow> recv_round list \<Rightarrow> bool" where
  "accounts st rounds p st' used \<longleftrightarrow>
     rounds = used @ spin_reads st'
   \<and> list_all parked (butlast used) \<and> length (filter failing used) \<le> 1
   \<and> recv_errors st' = recv_errors st + of_nat (length (filter failing used))
   \<and> received_datagrams st' = received_datagrams st + of_nat (sum_list (map delivered used))
   \<and> (filter failing used \<noteq> [] \<longrightarrow>
        (\<exists>e. p = Ready (Inl e) \<and> io_kind e \<noteq> Would_block \<and> io_kind e \<noteq> Connection_reset))"

lemma accounts_one:
  "accounts st (r # rs) p st' [r] \<longleftrightarrow>
     rs = spin_reads st'
   \<and> recv_errors st' = recv_errors st + (if failing r then 1 else 0)
   \<and> received_datagrams st' = received_datagrams st + of_nat (delivered r)
   \<and> (failing r \<longrightarrow>
        (\<exists>e. p = Ready (Inl e) \<and> io_kind e \<noteq> Would_block \<and> io_kind e \<noteq> Connection_reset))"
  by (auto simp: accounts_def)

lemma accounts_parked:
  assumes "accounts st rs p st' used" and "parked r"
  shows "accounts st (r # rs) p st' (r # used)"
proof -
  from assms(2) obtain e g where "r = Attempt (Inl e) g" "io_kind e = Would_block"
    by (cases r rule: delivered.cases)
       (auto simp: recv_disposition_of_def split: sum.splits if_splits)
  with assms(1) show ?thesis by (auto simp: accounts_def recv_disposition_cases)
qed

lemma spin_recv_loop_accounts:
  "case spin_recv_loop rounds bm st of
     Panic \<Rightarrow> False
   | Ret (p, bm', st') \<Rightarrow> \<exists>used. accounts st rounds p st' used"
proof (induction rounds bm st rule: spin_recv_loop.induct)
  case (1 bm st)
  show ?case
    by (simp, intro exI [of _ "[]"]) (simp add: accounts_def recv_errors_def received_datagrams_def)
next
  case (4 result g rs bm st)
  show ?case
  proof (cases result)
    case (Inr n)
    then show ?thesis
      by (simp add: recv_disposition_cases, intro exI [of _ "[Attempt result g]"])
         (simp add: accounts_one recv_disposition_cases recv_errors_def received_datagrams_def)
  next
    case (Inl e)
    show ?thesis
    proof (cases "io_kind e = Would_block")
      case True
      with Inl 4 show ?thesis
        by (auto simp: recv_disposition_cases split: rust.splits)
           (metis accounts_parked parked.simps(1) recv_disposition_cases(2))
    next
      case False
      with Inl show ?thesis
        by (simp add: recv_disposition_cases, intro exI [of _ "[Attempt result g]"])
           (simp add: accounts_one recv_disposition_cases recv_errors_def received_datagrams_def
             endpoint_receive_error_def)
    qed
  qed
qed (simp, rule exI, rule accounts_one [THEN iffD2],
     simp add: recv_errors_def received_datagrams_def)+

fun spin_sends :: "int \<Rightarrow> spin_socket \<Rightarrow> transmit list \<Rightarrow> unit io_result list \<times> spin_socket" where
  "spin_sends emsgsize st [] = ([], st)"
| "spin_sends emsgsize st (tr # trs) =
     (let (r, st1) = spin_try_send emsgsize st tr; (rs, st2) = spin_sends emsgsize st1 trs
      in (r # rs, st2))"

text \<open>How each send of a run is classified, from the answers alone.\<close>

fun send_dispositions ::
  "int \<Rightarrow> (transmit \<Rightarrow> unit io_result) list \<Rightarrow> transmit list \<Rightarrow> send_disposition list" where
  "send_dispositions emsgsize ws [] = []"
| "send_dispositions emsgsize [] (tr # trs) = Send_would_block # send_dispositions emsgsize [] trs"
| "send_dispositions emsgsize (w # ws) (tr # trs) =
     send_disposition_of emsgsize (w tr) # send_dispositions emsgsize ws trs"

text \<open>A fresh socket with its answers, for the witnesses.\<close>

definition scripted_socket :: "recv_round list \<Rightarrow> (transmit \<Rightarrow> unit io_result) list \<Rightarrow> spin_socket" where
  "scripted_socket reads writes = \<lparr>spin_recv_errors = 0, spin_send_errors = 0, spin_received = 0,
     spin_reads = reads, spin_writes = writes\<rparr>"

section \<open>Properties\<close>

text \<open>
  C15: One poll never retries a real error in place. Whatever the socket answers, every answer one
  \<open>poll_recv\<close> uses up before the last was a spurious wake-up, so at most one is a failed receive,
  the last; a failed receive adds one to the error counter and ends the poll with an error that is neither \<open>WouldBlock\<close> nor
  \<open>ConnectionReset\<close> (the kind quinn would ignore); and the per-socket counter grows by exactly
  the datagrams handed to quinn.
\<close>

theorem one_poll_one_error:
  "\<exists>p bm' st' used.
     spin_poll_recv st bm = Ret (p, bm', st')
   \<and> spin_reads st = used @ spin_reads st'
   \<and> list_all parked (butlast used) \<and> length (filter failing used) \<le> 1
   \<and> recv_errors st' = recv_errors st + of_nat (length (filter failing used))
   \<and> received_datagrams st' = received_datagrams st + of_nat (sum_list (map delivered used))
   \<and> (filter failing used \<noteq> [] \<longrightarrow>
        (\<exists>e. p = Ready (Inl e) \<and> io_kind e \<noteq> Would_block \<and> io_kind e \<noteq> Connection_reset))"
  using spin_recv_loop_accounts [where rounds = "spin_reads st" and bm = bm and st = st]
  by (fastforce simp: spin_poll_recv_def accounts_def split: rust.splits)

theorem one_poll_one_error_witness:
  "\<exists>st'. spin_poll_recv \<lparr>spin_recv_errors = 2, spin_send_errors = 0, spin_received = 0,
        spin_reads = [Attempt (Inl (Os_error 35 Would_block)) id,
          Attempt (Inl (Os_error 111 Connection_reset)) id, Attempt (Inr 1) id], spin_writes = []\<rparr> ([], [])
      = Ret (Ready (Inl (io_other (Os_error 111 Connection_reset))), ([], []), st')
    \<and> recv_errors st' = 3 \<and> length (spin_reads st') = 1"
  using one_poll_one_error [of "\<lparr>spin_recv_errors = 2, spin_send_errors = 0, spin_received = 0,
        spin_reads = [Attempt (Inl (Os_error 35 Would_block)) id,
          Attempt (Inl (Os_error 111 Connection_reset)) id, Attempt (Inr 1) id], spin_writes = []\<rparr>" "([], [])"]
  by (simp add: spin_poll_recv_def recv_disposition_of_def endpoint_receive_error_def recv_errors_def)

text \<open>
  Over any run of sends, quinn sees an error exactly where the socket was not writable, a
  path-MTU probe that was too large and a datagram that could not leave both read as success, and
  the send counter grows by exactly the sends of the last kind.
\<close>

theorem send_errors_count_lost_datagrams:
  assumes "spin_sends emsgsize st trs = (rs, st')"
  shows "send_errors st' = send_errors st
      + of_nat (count_list (send_dispositions emsgsize (spin_writes st) trs) Failed)
    \<and> list_all2 (\<lambda>d r. (r = Inr ()) = (d \<noteq> Send_would_block))
        (send_dispositions emsgsize (spin_writes st) trs) rs"
  using assms
proof (induction trs arbitrary: st rs)
  case Nil
  then show ?case by (simp add: send_errors_def)
next
  case (Cons tr trs)
  obtain r st1 where r: "spin_try_send emsgsize st tr = (r, st1)" by fastforce
  obtain rs1 where rs1: "spin_sends emsgsize st1 trs = (rs1, st')" and rs: "rs = r # rs1"
    using Cons.prems r by (auto split: prod.splits)
  note IH = Cons.IH [OF rs1]
  show ?case
  proof (cases "spin_writes st")
    case Nil
    with r have "r = Inl (Simple_error Would_block)" "st1 = st"
      by (simp_all add: spin_try_send_def send_disposition_of_def)
    with IH Nil rs show ?thesis by simp
  next
    case (Cons w ws)
    with r have "spin_writes st1 = ws" and "(r = Inr ()) = (send_disposition_of emsgsize (w tr) \<noteq> Send_would_block)"
      and "send_errors st1 = send_errors st + (if send_disposition_of emsgsize (w tr) = Failed then 1 else 0)"
      by (auto simp: spin_try_send_def send_errors_def send_disposition_of_def
          split: send_disposition.splits sum.splits if_splits)
    with IH Cons rs show ?thesis by simp
  qed
qed

theorem send_errors_count_lost_datagrams_witness:
  "send_errors (snd (spin_sends 90 \<lparr>spin_recv_errors = 0, spin_send_errors = 5, spin_received = 0,
      spin_reads = [], spin_writes =
        [\<lambda>_. Inl (Os_error 90 Other), \<lambda>_. Inl (Os_error 65 Other), \<lambda>_. Inr (),
         \<lambda>_. Inl (Os_error 35 Would_block)]\<rparr> (replicate 4 \<lparr>tx_destination = Addr_v4 7 443, tx_ecn = None, tx_contents = [1, 2],
      tx_segment_size = None, tx_src_ip = None\<rparr>))) = 6"
proof -
  let ?tr = "\<lparr>tx_destination = Addr_v4 7 443, tx_ecn = None, tx_contents = [1, 2], tx_segment_size = None,
      tx_src_ip = None\<rparr>"
  let ?st = "\<lparr>spin_recv_errors = 0, spin_send_errors = 5, spin_received = 0, spin_reads = [],
      spin_writes = [\<lambda>_. Inl (Os_error 90 Other), \<lambda>_. Inl (Os_error 65 Other), \<lambda>_. Inr (),
         \<lambda>_. Inl (Os_error 35 Would_block)]\<rparr>"
  from send_errors_count_lost_datagrams [of 90 ?st "replicate 4 ?tr",
      OF prod.collapse [symmetric]]
  show ?thesis
    by (simp add: send_errors_def numeral_eq_Suc send_disposition_of_def)
qed

end
