(* ===== verification/Obf_Socket.thy ===== *)
theory Obf_Socket
  imports Salamander Spin_Free_Socket
begin

text \<open>
  The obfuscating socket (\<open>src/src/obf_socket.rs\<close>): a wrapper around any \<open>AsyncUdpSocket\<close> that
  runs Salamander over every datagram, and the one builder \<open>client_socket\<close> for the plain and the
  obfuscated case.

  The trait \<open>AsyncUdpSocket\<close> is the locale \<open>udp_socket\<close>: the operations the wrapper calls and
  what it relies on. Inside it the wrapper is shown to satisfy the same contract again; the locale
  is interpreted on the spin-free socket, and on the wrapper around it.
\<close>

section \<open>The wrapper\<close>

type_synonym 's send_outcome = "(unit io_result \<times> 's) rust"

definition obf_try_send ::
  "('s \<Rightarrow> transmit \<Rightarrow> 's send_outcome) \<Rightarrow> (bytes \<Rightarrow> bytes) \<Rightarrow> salamander \<Rightarrow> bytes
     \<Rightarrow> 's \<Rightarrow> transmit \<Rightarrow> 's send_outcome" where
  "obf_try_send send blake obf salt st tr =
     (let buf = replicate (length (tx_contents tr) + SALT_LEN) 0 in
      rust_bind (obfuscate blake obf (tx_contents tr) salt buf) (\<lambda>(n, buf').
      let obfuscated = \<lparr>tx_destination = tx_destination tr, tx_ecn = tx_ecn tr,
            tx_contents = buf', tx_segment_size = None, tx_src_ip = tx_src_ip tr\<rparr>
      in send st obfuscated))"

text \<open>\<open>for i in 0..n\<close>: \<open>k\<close> is the number of rounds left.\<close>

fun obf_recv_loop ::
  "(bytes \<Rightarrow> bytes) \<Rightarrow> salamander \<Rightarrow> nat \<Rightarrow> nat \<Rightarrow> bytes list \<times> recv_meta list
     \<Rightarrow> (bytes list \<times> recv_meta list) rust" where
  "obf_recv_loop blake obf i 0 bm = Ret bm"
| "obf_recv_loop blake obf i (Suc k) (bufs, meta) =
     rust_bind (get_at meta i) (\<lambda>m.
     rust_bind (get_at bufs i) (\<lambda>buf.
     rust_bind (deobfuscate_in_place blake obf buf (rm_len m)) (\<lambda>(plain, buf').
     let l = (case plain of Some plain_len \<Rightarrow> plain_len | None \<Rightarrow> 0) in
     obf_recv_loop blake obf (Suc i) k
       (bufs[i := buf'], meta[i := m\<lparr>rm_len := l, rm_stride := l\<rparr>]))))"

definition obf_poll_recv ::
  "('s \<Rightarrow> bytes list \<times> recv_meta list \<Rightarrow> 's recv_outcome) \<Rightarrow> (bytes \<Rightarrow> bytes) \<Rightarrow> salamander
     \<Rightarrow> 's \<Rightarrow> bytes list \<times> recv_meta list \<Rightarrow> 's recv_outcome" where
  "obf_poll_recv recv blake obf st bm =
     rust_bind (recv st bm) (\<lambda>(p, bm', st').
       case p of
         Ready (Inr n) \<Rightarrow>
           rust_bind (obf_recv_loop blake obf 0 n bm') (\<lambda>bm''. Ret (Ready (Inr n), bm'', st'))
       | other \<Rightarrow> Ret (other, bm', st'))"

definition obf_max_transmit_segments :: nat where "obf_max_transmit_segments = 1"

definition obf_max_receive_segments :: nat where "obf_max_receive_segments = 1"

section \<open>One slot at a time\<close>

text \<open>What the loop does to one buffer and its descriptor.\<close>

definition clear_slot :: "(bytes \<Rightarrow> bytes) \<Rightarrow> salamander \<Rightarrow> bytes \<Rightarrow> recv_meta \<Rightarrow> bytes \<times> recv_meta" where
  "clear_slot blake obf buf m =
     (if rm_len m < SALT_LEN then (buf, m\<lparr>rm_len := 0, rm_stride := 0\<rparr>)
      else
        (xor_stream (salamander_key blake obf (take SALT_LEN buf)) (drop SALT_LEN (take (rm_len m) buf))
           @ drop (rm_len m - SALT_LEN) buf,
         m\<lparr>rm_len := rm_len m - SALT_LEN, rm_stride := rm_len m - SALT_LEN\<rparr>))"

definition clear_slots ::
  "(bytes \<Rightarrow> bytes) \<Rightarrow> salamander \<Rightarrow> nat \<Rightarrow> nat \<Rightarrow> bytes list \<times> recv_meta list
     \<Rightarrow> bytes list \<times> recv_meta list" where
  "clear_slots blake obf i n bm =
     (map (\<lambda>j. if i \<le> j \<and> j < n then fst (clear_slot blake obf (fst bm ! j) (snd bm ! j)) else fst bm ! j)
        [0..<length (fst bm)],
      map (\<lambda>j. if i \<le> j \<and> j < n then snd (clear_slot blake obf (fst bm ! j) (snd bm ! j)) else snd bm ! j)
        [0..<length (snd bm)])"

lemma clear_slot_length:
  "rm_len m \<le> length buf \<Longrightarrow> length (fst (clear_slot blake obf buf m)) = length buf"
  by (simp add: clear_slot_def)

lemma clear_slot_fits:
  "rm_len m \<le> length buf \<Longrightarrow>
     rm_len (snd (clear_slot blake obf buf m)) \<le> length buf"
  by (auto simp: clear_slot_def)

lemma obf_recv_loop_clears:
  assumes "digest32 blake" and "slots_fit (i + k) bm"
  shows "obf_recv_loop blake obf i k bm = Ret (clear_slots blake obf i (i + k) bm)"
  using assms(2)
proof (induction k arbitrary: i bm)
  case 0
  show ?case by (cases bm) (auto simp: clear_slots_def intro!: nth_equalityI)
next
  case (Suc k)
  obtain bufs meta where bm: "bm = (bufs, meta)" by fastforce
  from Suc.prems bm have i: "i < length bufs" "i < length meta"
    and fit: "rm_len (meta ! i) \<le> length (bufs ! i)"
    by (auto simp: slots_fit_def)
  let ?b = "fst (clear_slot blake obf (bufs ! i) (meta ! i))"
  let ?m = "snd (clear_slot blake obf (bufs ! i) (meta ! i))"
  have step: "obf_recv_loop blake obf i (Suc k) bm
      = obf_recv_loop blake obf (Suc i) k (bufs[i := ?b], meta[i := ?m])"
    using i fit unfolding bm
    by (simp add: slice_simps deobfuscate_exact [OF assms(1)] clear_slot_def Let_def)
  have "slots_fit (Suc i + k) (bufs[i := ?b], meta[i := ?m])"
    using Suc.prems bm by (auto simp: slots_fit_def nth_list_update clear_slot_length clear_slot_fits)
  from Suc.IH [OF this]
  have "obf_recv_loop blake obf i (Suc k) bm
      = Ret (clear_slots blake obf (Suc i) (Suc i + k) (bufs[i := ?b], meta[i := ?m]))"
    using step by simp
  also have "clear_slots blake obf (Suc i) (Suc i + k) (bufs[i := ?b], meta[i := ?m])
      = clear_slots blake obf i (i + Suc k) bm"
    unfolding bm clear_slots_def
    by (intro prod_eqI nth_equalityI) (auto simp: nth_list_update Suc_le_eq order.strict_iff_order)
  finally show ?case .
qed

lemma clear_slots_nth:
  assumes "j < n" and "slots_fit n bm"
  shows "fst (clear_slots blake obf 0 n bm) ! j = fst (clear_slot blake obf (fst bm ! j) (snd bm ! j))"
    and "snd (clear_slots blake obf 0 n bm) ! j = snd (clear_slot blake obf (fst bm ! j) (snd bm ! j))"
  using assms by (simp_all add: clear_slots_def slots_fit_def)

lemma clear_slots_shape: "slots_fit n bm \<Longrightarrow> same_shape bm (clear_slots blake obf 0 n bm)"
  unfolding same_shape_def
  by (intro conjI nth_equalityI) (auto simp: clear_slots_def slots_fit_def clear_slot_length)

lemma clear_slots_fit: "slots_fit n bm \<Longrightarrow> slots_fit n (clear_slots blake obf 0 n bm)"
  using clear_slots_nth [of _ n bm blake obf] clear_slots_shape [of n bm blake obf]
  by (auto simp: slots_fit_def same_shape_def clear_slot_fits clear_slot_length
      dest: map_eq_imp_length_eq)

section \<open>The trait\<close>

lemma obf_try_send_wire:
  assumes "digest32 blake" and "length salt = SALT_LEN"
  shows "obf_try_send send blake obf salt st tr =
    send st \<lparr>tx_destination = tx_destination tr, tx_ecn = tx_ecn tr,
           tx_contents = wire_of blake obf salt (tx_contents tr),
           tx_segment_size = None, tx_src_ip = tx_src_ip tr\<rparr>"
  by (simp add: obf_try_send_def obfuscate_exact [OF assms] wire_of_def Let_def)

locale udp_socket =
  fixes recv :: "'s \<Rightarrow> bytes list \<times> recv_meta list \<Rightarrow> 's recv_outcome"
    and send :: "'s \<Rightarrow> transmit \<Rightarrow> 's send_outcome"
    and inv :: "'s \<Rightarrow> bytes list \<times> recv_meta list \<Rightarrow> bool"
  assumes recv_returns: "inv st bm \<Longrightarrow> recv st bm \<noteq> Panic"
    and recv_shape: "inv st bm \<Longrightarrow> recv st bm = Ret (p, bm', st') \<Longrightarrow> same_shape bm bm'"
    and recv_fits: "inv st bm \<Longrightarrow> recv st bm = Ret (Ready (Inr n), bm', st') \<Longrightarrow> slots_fit n bm'"
    and recv_inv: "inv st bm \<Longrightarrow> recv st bm = Ret (p, bm', st') \<Longrightarrow> inv st' bm'"
    and send_returns: "inv st bm \<Longrightarrow> send st tr \<noteq> Panic"
    and send_inv: "inv st bm \<Longrightarrow> send st tr = Ret (r, st') \<Longrightarrow> inv st' bm"
    and inv_shape: "inv st bm \<Longrightarrow> same_shape bm bm' \<Longrightarrow> inv st bm'"
begin

lemma obf_recv_eq:
  assumes "digest32 blake" and "inv st bm" and "recv st bm = Ret (p, bm', st')"
  shows "obf_poll_recv recv blake obf st bm =
    Ret (p, (case p of Ready (Inr n) \<Rightarrow> clear_slots blake obf 0 n bm' | _ \<Rightarrow> bm'), st')"
  using assms(3) recv_fits [OF assms(2), of _ bm' st'] obf_recv_loop_clears [OF assms(1), of 0]
  by (auto simp: obf_poll_recv_def split: poll.splits sum.splits)

lemma obf_recv_cases:
  assumes "digest32 blake" and "inv st bm" and "obf_poll_recv recv blake obf st bm = Ret (p, bm'', st')"
  obtains bm' where "recv st bm = Ret (p, bm', st')"
    and "bm'' = (case p of Ready (Inr n) \<Rightarrow> clear_slots blake obf 0 n bm' | _ \<Rightarrow> bm')"
proof (cases "recv st bm")
  case Panic
  with recv_returns [OF assms(2)] show ?thesis by simp
next
  case (Ret x)
  obtain p1 bm1 st1 where "x = (p1, bm1, st1)" by (cases x)
  with Ret obf_recv_eq [OF assms(1,2), of p1 bm1 st1] assms(3) that show ?thesis by auto
qed

text \<open>The wrapper around a socket is a socket again, over the same state.\<close>

lemma obf_returns: "digest32 blake \<Longrightarrow> inv st bm \<Longrightarrow> obf_poll_recv recv blake obf st bm \<noteq> Panic"
  using recv_returns [of st bm] obf_recv_eq [of blake st bm]
  by (cases "recv st bm") fastforce+

lemma obf_recv_contract:
  assumes "digest32 blake" and "inv st bm" and "obf_poll_recv recv blake obf st bm = Ret (p, bm'', st')"
  shows "same_shape bm bm''"
    and "p = Ready (Inr n) \<Longrightarrow> slots_fit n bm''"
    and "inv st' bm''"
proof -
  obtain bm' where r: "recv st bm = Ret (p, bm', st')"
    and bm'': "bm'' = (case p of Ready (Inr n) \<Rightarrow> clear_slots blake obf 0 n bm' | _ \<Rightarrow> bm')"
    using obf_recv_cases [OF assms] .
  show "p = Ready (Inr n) \<Longrightarrow> slots_fit n bm''"
    using bm'' r clear_slots_fit recv_fits [OF assms(2)] by simp
  have s: "same_shape bm' bm''"
  proof (cases "\<exists>n. p = Ready (Inr n)")
    case True
    then obtain n where p: "p = Ready (Inr n)" by blast
    with r recv_fits [OF assms(2)] have "slots_fit n bm'" by simp
    from clear_slots_shape [OF this] show ?thesis using p bm'' by simp
  next
    case False
    with bm'' show ?thesis by (auto split: poll.splits sum.splits)
  qed
  from same_shape_trans [OF recv_shape [OF assms(2) r] this] show "same_shape bm bm''" .
  from inv_shape [OF recv_inv [OF assms(2) r] s] show "inv st' bm''" .
qed

lemma obf_is_udp_socket:
  "udp_socket (obf_poll_recv recv blake obf) (obf_try_send send blake obf salt)
     (\<lambda>st bm. inv st bm \<and> digest32 blake \<and> length salt = SALT_LEN)"
proof unfold_locales
  show "inv st bm \<and> digest32 blake \<and> length salt = SALT_LEN \<Longrightarrow>
      obf_try_send send blake obf salt st tr \<noteq> Panic" for st bm tr
    by (metis obf_try_send_wire send_returns)
  show "inv st' bm \<and> digest32 blake \<and> length salt = SALT_LEN"
    if "inv st bm \<and> digest32 blake \<and> length salt = SALT_LEN"
      and "obf_try_send send blake obf salt st tr = Ret (r, st')" for st bm tr r st'
    using that by (metis obf_try_send_wire send_inv)
qed (auto simp: obf_returns intro: obf_recv_contract inv_shape)

end

section \<open>Interpretations\<close>

lemma spin_try_send_inv:
  "spin_inv st bm \<Longrightarrow> spin_try_send emsgsize st tr = (r, st') \<Longrightarrow> spin_inv st' bm"
  by (auto simp: spin_try_send_def spin_inv_def split: list.splits send_disposition.splits)

interpretation spin: udp_socket spin_poll_recv "\<lambda>st tr. Ret (spin_try_send emsgsize st tr)" spin_inv
  for emsgsize
proof unfold_locales
  show "spin_poll_recv st bm \<noteq> Panic" for st bm by (rule spin_poll_recv_never_panics)
qed (auto intro: spin_poll_recv_shape spin_poll_recv_inv spin_poll_recv_fits spin_try_send_inv
    spin_inv_shape)

interpretation obfuscated: udp_socket
  "obf_poll_recv spin_poll_recv blake obf"
  "obf_try_send (\<lambda>st tr. Ret (spin_try_send emsgsize st tr)) blake obf salt"
  "\<lambda>st bm. spin_inv st bm \<and> digest32 blake \<and> length salt = SALT_LEN"
  for blake obf emsgsize salt
  by (rule spin.obf_is_udp_socket)

section \<open>The builder\<close>

text \<open>
  A client socket is one socket seen twice: \<open>cs_base\<close>, which counts, and the same socket as quinn
  sees it, through the wrapper when \<open>cs_obf\<close> holds a key. The operations of \<open>endpoint_socket\<close>
  dispatch on that and act on the one base. The argument \<open>bound\<close> is what \<open>SpinFreeUdpSocket::bind\<close>
  answered.
\<close>

record client_sock =
  cs_obf :: "salamander option"
  cs_base :: spin_socket

definition client_socket :: "spin_socket io_result \<Rightarrow> salamander option \<Rightarrow> client_sock io_result" where
  "client_socket bound obf =
     (case bound of Inl e \<Rightarrow> Inl e | Inr base \<Rightarrow> Inr \<lparr>cs_obf = obf, cs_base = base\<rparr>)"

definition endpoint_try_send ::
  "int \<Rightarrow> (bytes \<Rightarrow> bytes) \<Rightarrow> bytes \<Rightarrow> client_sock \<Rightarrow> transmit \<Rightarrow> client_sock send_outcome" where
  "endpoint_try_send emsgsize blake salt cs tr =
     rust_bind
       (case cs_obf cs of
          None \<Rightarrow> Ret (spin_try_send emsgsize (cs_base cs) tr)
        | Some obf \<Rightarrow>
            obf_try_send (\<lambda>st tr. Ret (spin_try_send emsgsize st tr)) blake obf salt (cs_base cs) tr)
       (\<lambda>(r, base). Ret (r, cs\<lparr>cs_base := base\<rparr>))"

definition endpoint_poll_recv ::
  "(bytes \<Rightarrow> bytes) \<Rightarrow> client_sock \<Rightarrow> bytes list \<times> recv_meta list \<Rightarrow> client_sock recv_outcome" where
  "endpoint_poll_recv blake cs bm =
     rust_bind
       (case cs_obf cs of
          None \<Rightarrow> spin_poll_recv (cs_base cs) bm
        | Some obf \<Rightarrow> obf_poll_recv spin_poll_recv blake obf (cs_base cs) bm)
       (\<lambda>(p, bm', base). Ret (p, bm', cs\<lparr>cs_base := base\<rparr>))"

text \<open>What quinn is told of the socket: the wrapper announces one datagram per call, and hands on the rest.\<close>

definition obf_create_io_poller :: "(socket_caps \<Rightarrow> unit io_result poll) \<Rightarrow> socket_caps \<Rightarrow> unit io_result poll" where
  "obf_create_io_poller inner = inner"

definition obf_local_addr :: "(socket_caps \<Rightarrow> socket_addr io_result) \<Rightarrow> socket_caps \<Rightarrow> socket_addr io_result" where
  "obf_local_addr inner = inner"

definition obf_may_fragment :: "(socket_caps \<Rightarrow> bool) \<Rightarrow> socket_caps \<Rightarrow> bool" where
  "obf_may_fragment inner = inner"

definition obf_debug :: "salamander \<Rightarrow> string" where
  "obf_debug obf = ''ObfuscatedUdpSocket { .. }''"

definition endpoint_max_transmit_segments :: "socket_caps \<Rightarrow> client_sock \<Rightarrow> nat" where
  "endpoint_max_transmit_segments caps cs =
     (case cs_obf cs of None \<Rightarrow> spin_max_transmit_segments caps | Some obf \<Rightarrow> obf_max_transmit_segments)"

text \<open>
  The datagrams the kernel makes of a transmit: the contents cut every \<open>segment_size\<close> bytes. quinn keeps
  within the number of segments a socket announces; the wrapper relies on that.
\<close>

function segments :: "nat \<Rightarrow> bytes \<Rightarrow> bytes list" where
  "segments n xs = (if n = 0 \<or> length xs \<le> n then [xs] else take n xs # segments n (drop n xs))"
  by pat_completeness auto
termination
  by (relation "measure (length \<circ> snd)") auto

declare segments.simps [simp del]

definition datagrams_of :: "transmit \<Rightarrow> bytes list" where
  "datagrams_of tr =
     (case tx_segment_size tr of None \<Rightarrow> [tx_contents tr] | Some n \<Rightarrow> segments n (tx_contents tr))"

lemma one_segment: "length (segments n xs) \<le> 1 \<Longrightarrow> segments n xs = [xs]"
  by (subst segments.simps) (use segments.simps [of n xs] segments.simps [of n "drop n xs"] in
      \<open>auto split: if_splits\<close>)

lemma within_the_announced_segments:
  assumes "digest32 blake" and "length salt = SALT_LEN" and "cs_obf cs = Some obf"
    and "length (datagrams_of tr) \<le> endpoint_max_transmit_segments caps cs"
  shows "\<exists>tr'. endpoint_try_send emsgsize blake salt cs tr =
      (let (r, base) = spin_try_send emsgsize (cs_base cs) tr' in Ret (r, cs\<lparr>cs_base := base\<rparr>))
    \<and> datagrams_of tr' = map (wire_of blake obf salt) (datagrams_of tr)"
proof -
  have "datagrams_of tr = [tx_contents tr]"
    using assms(3,4) one_segment
    by (auto simp: datagrams_of_def endpoint_max_transmit_segments_def obf_max_transmit_segments_def
        split: option.splits)
  with assms(3) show ?thesis
    by (intro exI [of _ "\<lparr>tx_destination = tx_destination tr, tx_ecn = tx_ecn tr,
          tx_contents = wire_of blake obf salt (tx_contents tr), tx_segment_size = None,
          tx_src_ip = tx_src_ip tr\<rparr>"])
      (simp add: endpoint_try_send_def obf_try_send_wire [OF assms(1,2)] datagrams_of_def
        case_prod_beta Let_def)
qed

text \<open>
  The endpoint builders. \<open>runtime\<close> is quinn's default runtime, if there is one, and
  \<open>new_endpoint\<close> is \<open>Endpoint::new_with_abstract_socket\<close> with the default endpoint configuration.
\<close>

definition obfuscated_endpoint ::
  "'rt option \<Rightarrow> spin_socket io_result
     \<Rightarrow> ('cfg option \<Rightarrow> client_sock \<Rightarrow> 'rt \<Rightarrow> 'ep io_result)
     \<Rightarrow> salamander \<Rightarrow> 'cfg option \<Rightarrow> 'ep io_result" where
  "obfuscated_endpoint runtime bound new_endpoint obf server_config =
     (case runtime of
        None \<Rightarrow> Inl (Message_error Other ''no async runtime for QUIC endpoint'')
      | Some rt \<Rightarrow>
          (case client_socket bound (Some obf) of
             Inl e \<Rightarrow> Inl e
           | Inr socket \<Rightarrow> new_endpoint server_config socket rt))"

definition obfuscated_client_endpoint ::
  "'rt option \<Rightarrow> spin_socket io_result
     \<Rightarrow> ('cfg option \<Rightarrow> client_sock \<Rightarrow> 'rt \<Rightarrow> 'ep io_result) \<Rightarrow> salamander \<Rightarrow> 'ep io_result" where
  "obfuscated_client_endpoint runtime bound new_endpoint obf =
     obfuscated_endpoint runtime bound new_endpoint obf None"

definition obfuscated_server_endpoint ::
  "'rt option \<Rightarrow> spin_socket io_result
     \<Rightarrow> ('cfg option \<Rightarrow> client_sock \<Rightarrow> 'rt \<Rightarrow> 'ep io_result) \<Rightarrow> salamander \<Rightarrow> 'cfg \<Rightarrow> 'ep io_result" where
  "obfuscated_server_endpoint runtime bound new_endpoint obf server_config =
     obfuscated_endpoint runtime bound new_endpoint obf (Some server_config)"

section \<open>What the datagrams look like\<close>

text \<open>The bytes a connection with this recipe puts on the wire, and a slot that holds them.\<close>

definition on_wire :: "(bytes \<Rightarrow> bytes) \<Rightarrow> salamander option \<Rightarrow> bytes \<Rightarrow> bytes \<Rightarrow> bytes" where
  "on_wire blake obf salt contents =
     (case obf of None \<Rightarrow> contents | Some s \<Rightarrow> wire_of blake s salt contents)"

definition holds :: "bytes list \<times> recv_meta list \<Rightarrow> nat \<Rightarrow> bytes \<Rightarrow> bool" where
  "holds bm j d \<longleftrightarrow> rm_len (snd bm ! j) = length d \<and> take (length d) (fst bm ! j) = d"

lemma clear_slot_wire:
  assumes "digest32 blake" and "length salt = SALT_LEN"
    and "rm_len m = length (wire_of blake s salt d)"
    and "take (rm_len m) buf = wire_of blake s salt d"
  shows "rm_len (snd (clear_slot blake s buf m)) = length d
    \<and> rm_stride (snd (clear_slot blake s buf m)) = length d
    \<and> take (length d) (fst (clear_slot blake s buf m)) = d"
proof -
  have m: "rm_len m = SALT_LEN + length d" using assms(2,3) by (simp add: wire_simps)
  have "take SALT_LEN (take (rm_len m) buf) = salt"
    using assms(2) unfolding assms(4) by (simp add: wire_of_def)
  then have "take SALT_LEN buf = salt" using m by (simp add: min_def)
  moreover have "drop SALT_LEN (take (rm_len m) buf) = xor_stream (salamander_key blake s salt) d"
    using assms(2) unfolding assms(4) by (simp add: wire_of_def)
  ultimately show ?thesis using m by (simp add: clear_slot_def)
qed

lemma endpoint_poll_recv_plain:
  "cs_obf cs = None \<Longrightarrow> spin_poll_recv (cs_base cs) bm = Ret (p, bm', base) \<Longrightarrow>
     endpoint_poll_recv blake cs bm = Ret (p, bm', cs\<lparr>cs_base := base\<rparr>)"
  by (simp add: endpoint_poll_recv_def)

lemma endpoint_poll_recv_obf:
  assumes "digest32 blake" and "spin_inv (cs_base cs) bm" and "cs_obf cs = Some s"
    and "spin_poll_recv (cs_base cs) bm = Ret (p, bm', base)"
  shows "endpoint_poll_recv blake cs bm =
    Ret (p, (case p of Ready (Inr n) \<Rightarrow> clear_slots blake s 0 n bm' | _ \<Rightarrow> bm'), cs\<lparr>cs_base := base\<rparr>)"
  using assms spin.obf_recv_eq [OF assms(1,2,4)] by (simp add: endpoint_poll_recv_def)

section \<open>Properties\<close>

text \<open>
  Whatever \<open>client_socket\<close> built, and so equally for the first socket of a connection and for
  the one \<open>rebind\<close> replaces it with, a datagram reaches the kernel in the form the recipe fixes:
  unchanged without a PSK, and otherwise as salt and XORed body, one datagram with no segment size,
  same destination, ECN and source.
\<close>

theorem client_socket_fixes_the_wire_format:
  assumes "client_socket bound obf = Inr cs" and "digest32 blake" and "length salt = SALT_LEN"
  shows "endpoint_try_send emsgsize blake salt cs tr =
    (let (r, base) = spin_try_send emsgsize (cs_base cs)
           (tr\<lparr>tx_contents := on_wire blake obf salt (tx_contents tr),
               tx_segment_size := (case obf of None \<Rightarrow> tx_segment_size tr | Some _ \<Rightarrow> None)\<rparr>)
     in Ret (r, cs\<lparr>cs_base := base\<rparr>))"
  using assms(1)
  by (cases tr) (auto simp: client_socket_def endpoint_try_send_def on_wire_def Let_def
      obf_try_send_wire [OF assms(2,3)] split: sum.splits option.splits prod.splits)

theorem client_socket_fixes_the_wire_format_witness:
  "\<exists>cs. client_socket (Inr st) (Some obf) = Inr cs
     \<and> endpoint_try_send 90 (\<lambda>_. replicate 32 1) (replicate 8 0) cs tr =
       (let (r, base) = spin_try_send 90 st
           (tr\<lparr>tx_contents := replicate 8 0 @ xor_stream (replicate 32 1) (tx_contents tr),
               tx_segment_size := None\<rparr>)
        in Ret (r, cs\<lparr>cs_base := base\<rparr>))"
proof -
  have c: "client_socket (Inr st) (Some obf) = Inr \<lparr>cs_obf = Some obf, cs_base = st\<rparr>"
    by (simp add: client_socket_def)
  have h: "digest32 (\<lambda>_. replicate 32 1)" and l: "length (replicate 8 (0 :: u8)) = SALT_LEN"
    by (simp_all add: digest32_def KEY_LEN_def SALT_LEN_def)
  from client_socket_fixes_the_wire_format [OF c h l, of 90 tr] c show ?thesis
    by (auto simp: on_wire_def wire_of_def salamander_key_def)
qed

lemma batch_delivered:
  assumes "digest32 blake" and "spin_inv (cs_base cs) bm"
    and "spin_poll_recv (cs_base cs) bm = Ret (Ready (Inr n), bm', base')"
    and "\<forall>j < n. length (salt j) = SALT_LEN"
    and "\<forall>j < n. holds bm' j (on_wire blake (cs_obf cs) (salt j) (d j))"
  shows "\<exists>bm''. endpoint_poll_recv blake cs bm = Ret (Ready (Inr n), bm'', cs\<lparr>cs_base := base'\<rparr>)
    \<and> (\<forall>j < n. holds bm'' j (d j))"
proof (cases "cs_obf cs")
  case None
  with endpoint_poll_recv_plain [OF None assms(3)] assms(5) show ?thesis
    by (simp add: on_wire_def)
next
  case (Some s)
  have fit: "slots_fit n bm'" using spin.recv_fits [OF assms(2,3)] .
  have "holds (clear_slots blake s 0 n bm') j (d j)" if j: "j < n" for j
    using clear_slot_wire [OF assms(1), of "salt j" "snd bm' ! j" s "d j" "fst bm' ! j"]
      clear_slots_nth [OF j fit] assms(4,5) j Some
    by (simp add: holds_def on_wire_def)
  with endpoint_poll_recv_obf [OF assms(1,2) Some assms(3)] show ?thesis by simp
qed

definition sample_meta :: recv_meta where
  "sample_meta = \<lparr>rm_addr = Addr_v4 0 0, rm_len = 0, rm_stride = 0, rm_ecn = None, rm_dst_ip = None\<rparr>"

text \<open>A kernel that writes the one datagram \<open>d\<close> into the first slot, where it has room for it.\<close>

definition deliver_one :: "bytes \<Rightarrow> bytes list \<times> recv_meta list \<Rightarrow> bytes list \<times> recv_meta list" where
  "deliver_one d bm =
     (case bm of
        (b # bs, m # ms) \<Rightarrow>
          if length d \<le> length b then ((d @ drop (length d) b) # bs, m\<lparr>rm_len := length d\<rparr> # ms) else bm
      | _ \<Rightarrow> bm)"

lemma deliver_one_ok:
  assumes "length d \<le> length b"
  shows "round_ok ([b], [m]) (Attempt (Inr 1) (deliver_one d))"
  using assms
  by (auto simp: same_shape_def slots_fit_def deliver_one_def length_Suc_conv)

definition sample_socket :: "bytes \<Rightarrow> spin_socket" where
  "sample_socket d = \<lparr>spin_recv_errors = 0, spin_send_errors = 0, spin_received = 0,
     spin_reads = [Attempt (Inl (Simple_error Would_block)) id, Attempt (Inr 1) (deliver_one d)],
     spin_writes = []\<rparr>"

text \<open>
  What quinn at one socket writes, quinn at the other is handed: \<open>wire_transmit\<close> is what the kernel is
  given of a transmit, and \<open>delivers\<close> says that whatever filled the slots of a receive with the contents
  of such transmits fills them, for quinn, with the contents that were written.
\<close>

definition wire_transmit :: "(bytes \<Rightarrow> bytes) \<Rightarrow> bytes \<Rightarrow> client_sock \<Rightarrow> transmit \<Rightarrow> transmit" where
  "wire_transmit blake salt cs tr =
     (case cs_obf cs of
        None \<Rightarrow> tr
      | Some s \<Rightarrow> tr\<lparr>tx_contents := wire_of blake s salt (tx_contents tr), tx_segment_size := None\<rparr>)"

lemma endpoint_try_send_wire:
  assumes "digest32 blake" and "length salt = SALT_LEN"
  shows "endpoint_try_send emsgsize blake salt cs tr =
    (let (r, base) = spin_try_send emsgsize (cs_base cs) (wire_transmit blake salt cs tr)
     in Ret (r, cs\<lparr>cs_base := base\<rparr>))"
  by (cases tr) (auto simp: endpoint_try_send_def wire_transmit_def obf_try_send_wire [OF assms] Let_def
      split: option.split prod.split)

lemma wire_transmit_contents:
  "tx_contents (wire_transmit blake salt cs tr) = on_wire blake (cs_obf cs) salt (tx_contents tr)"
  by (simp add: wire_transmit_def on_wire_def split: option.split)

definition delivers :: "(bytes \<Rightarrow> bytes) \<Rightarrow> client_sock \<Rightarrow> client_sock \<Rightarrow> bool" where
  "delivers blake a b \<longleftrightarrow>
     (\<forall>bm n bm' base' salt tr.
        spin_inv (cs_base b) bm \<and> spin_poll_recv (cs_base b) bm = Ret (Ready (Inr n), bm', base')
        \<and> (\<forall>j < n. length (salt j) = SALT_LEN
             \<and> holds bm' j (tx_contents (wire_transmit blake (salt j) a (tr j)))) \<longrightarrow>
        (\<exists>bm''. endpoint_poll_recv blake b bm = Ret (Ready (Inr n), bm'', b\<lparr>cs_base := base'\<rparr>)
           \<and> (\<forall>j < n. holds bm'' j (tx_contents (tr j)))))"

lemma same_recipe_delivers:
  assumes "digest32 blake" and "cs_obf a = cs_obf b"
  shows "delivers blake a b"
  unfolding delivers_def wire_transmit_contents assms(2)
proof (intro allI impI, elim conjE)
  fix bm n bm' base' salt and tr :: "nat \<Rightarrow> transmit"
  assume "spin_inv (cs_base b) bm" and "spin_poll_recv (cs_base b) bm = Ret (Ready (Inr n), bm', base')"
    and "\<forall>j < n. length (salt j) = SALT_LEN \<and> holds bm' j (on_wire blake (cs_obf b) (salt j) (tx_contents (tr j)))"
  then show "\<exists>bm''. endpoint_poll_recv blake b bm = Ret (Ready (Inr n), bm'', b\<lparr>cs_base := base'\<rparr>)
      \<and> (\<forall>j < n. holds bm'' j (tx_contents (tr j)))"
    using batch_delivered [OF assms(1), of b bm n bm' base' salt "\<lambda>j. tx_contents (tr j)"] by simp
qed

text \<open>
  C14: Two endpoints with the same recipe understand each other. When a receive poll finds in its
  \<open>n\<close> slots, in buffers of any size, the wire form of \<open>n\<close> datagrams under salts of their own, the
  endpoint socket hands quinn the same \<open>n\<close> slots holding exactly what the sender's quinn wrote.
\<close>

theorem batch_round_trip:
  assumes "digest32 blake" and "spin_inv (cs_base cs) bm"
    and "spin_poll_recv (cs_base cs) bm = Ret (Ready (Inr n), bm', base')"
    and "\<forall>j < n. length (salt j) = SALT_LEN"
    and "\<forall>j < n. holds bm' j (on_wire blake (cs_obf cs) (salt j) (d j))"
  shows "\<exists>bm''. endpoint_poll_recv blake cs bm = Ret (Ready (Inr n), bm'', cs\<lparr>cs_base := base'\<rparr>)
    \<and> (\<forall>j < n. holds bm'' j (d j))"
  using batch_delivered [OF assms] .

theorem batch_round_trip_witness:
  "\<exists>bm'' cs'. endpoint_poll_recv (\<lambda>_. replicate 32 1)
       \<lparr>cs_obf = Some \<lparr>sal_psk = [9]\<rparr>,
        cs_base = sample_socket (wire_of (\<lambda>_. replicate 32 1) \<lparr>sal_psk = [9]\<rparr> (replicate 8 0) [5, 6])\<rparr>
       ([replicate 12 0], [sample_meta]) = Ret (Ready (Inr 1), bm'', cs') \<and> holds bm'' 0 [5, 6]"
proof -
  let ?h = "\<lambda>_ :: bytes. replicate 32 (1 :: u8)" and ?s = "\<lparr>sal_psk = [9 :: u8]\<rparr>"
  let ?w = "wire_of ?h ?s (replicate 8 0) [5, 6]"
  let ?cs = "\<lparr>cs_obf = Some ?s, cs_base = sample_socket ?w\<rparr>" and ?bm = "([replicate 12 0], [sample_meta])"
  have h: "digest32 ?h" by (simp add: digest32_def KEY_LEN_def)
  have w: "length ?w = 10" by (simp add: wire_simps SALT_LEN_def)
  then have "spin_inv (cs_base ?cs) ?bm"
    using deliver_one_ok [of ?w "replicate 12 0" sample_meta] by (simp add: spin_inv_def sample_socket_def)
  moreover have "spin_poll_recv (cs_base ?cs) ?bm = Ret (Ready (Inr 1), deliver_one ?w ?bm,
      (sample_socket ?w)\<lparr>spin_received := 1, spin_reads := []\<rparr>)"
    by (simp add: spin_poll_recv_def sample_socket_def recv_disposition_of_def)
  moreover have "holds (deliver_one ?w ?bm) 0 (on_wire ?h (cs_obf ?cs) (replicate 8 0) [5, 6])"
    using w by (simp add: holds_def deliver_one_def on_wire_def)
  ultimately show ?thesis
    using batch_round_trip [OF h, of ?cs ?bm 1 _ _ "\<lambda>_. replicate 8 0" "\<lambda>_. [5, 6]"]
    by (fastforce simp: SALT_LEN_def)
qed

text \<open>
  C34: Hostile datagrams. Under the receive contract the obfuscated endpoint never panics and keeps
  the contract towards quinn (no buffer resized, every length inside its buffer, as many slots as
  the kernel filled); a datagram too short to carry a salt comes up with length and stride 0 and
  its buffer untouched; and every datagram, readable or not, counts as received on this socket.
\<close>

theorem obfuscated_poll_is_total:
  assumes "digest32 blake" and "spin_inv (cs_base cs) bm" and "cs_obf cs = Some obf"
  shows "\<exists>p bm'' cs'. endpoint_poll_recv blake cs bm = Ret (p, bm'', cs')
    \<and> same_shape bm bm'' \<and> spin_inv (cs_base cs') bm''
    \<and> (\<forall>n. p = Ready (Inr n) \<longrightarrow> slots_fit n bm''
        \<and> received_datagrams (cs_base cs') = received_datagrams (cs_base cs) + of_nat n
        \<and> (\<exists>bm' base'. spin_poll_recv (cs_base cs) bm = Ret (Ready (Inr n), bm', base')
             \<and> (\<forall>j < n. rm_len (snd bm' ! j) < SALT_LEN \<longrightarrow>
                  rm_len (snd bm'' ! j) = 0 \<and> rm_stride (snd bm'' ! j) = 0
                \<and> fst bm'' ! j = fst bm' ! j)))"
proof (cases "spin_poll_recv (cs_base cs) bm")
  case Panic
  with spin.recv_returns [OF assms(2)] show ?thesis by simp
next
  case (Ret x)
  obtain p bm' base where r: "spin_poll_recv (cs_base cs) bm = Ret (p, bm', base)"
    using Ret by (cases x) auto
  let ?bm = "case p of Ready (Inr n) \<Rightarrow> clear_slots blake obf 0 n bm' | _ \<Rightarrow> bm'"
  have o: "obf_poll_recv spin_poll_recv blake obf (cs_base cs) bm = Ret (p, ?bm, base)"
    using spin.obf_recv_eq [OF assms(1,2) r] .
  have e: "endpoint_poll_recv blake cs bm = Ret (p, ?bm, cs\<lparr>cs_base := base\<rparr>)"
    using endpoint_poll_recv_obf [OF assms r] .
  have c: "same_shape bm ?bm" "spin_inv base ?bm"
    using spin.obf_recv_contract [OF assms(1,2) o] by auto
  have d: "slots_fit n ?bm \<and> received_datagrams base = received_datagrams (cs_base cs) + of_nat n
      \<and> (\<exists>bm' base'. spin_poll_recv (cs_base cs) bm = Ret (Ready (Inr n), bm', base')
          \<and> (\<forall>j < n. rm_len (snd bm' ! j) < SALT_LEN \<longrightarrow>
               rm_len (snd ?bm ! j) = 0 \<and> rm_stride (snd ?bm ! j) = 0 \<and> fst ?bm ! j = fst bm' ! j))"
    if p: "p = Ready (Inr n)" for n
  proof (intro conjI exI)
    show "slots_fit n ?bm" using spin.obf_recv_contract(2) [OF assms(1,2) o p] .
    show "received_datagrams base = received_datagrams (cs_base cs) + of_nat n"
      using spin_poll_recv_counts r p by blast
    show "spin_poll_recv (cs_base cs) bm = Ret (Ready (Inr n), bm', base)" using r p by simp
    have "slots_fit n bm'" using spin.recv_fits [OF assms(2)] r p by simp
    with p clear_slots_nth [of _ n bm' blake obf]
    show "\<forall>j < n. rm_len (snd bm' ! j) < SALT_LEN \<longrightarrow>
        rm_len (snd ?bm ! j) = 0 \<and> rm_stride (snd ?bm ! j) = 0 \<and> fst ?bm ! j = fst bm' ! j"
      by (simp add: clear_slot_def)
  qed
  show ?thesis
    by (rule exI [of _ p], rule exI [of _ ?bm], rule exI [of _ "cs\<lparr>cs_base := base\<rparr>"])
       (use e c d in simp)
qed

theorem obfuscated_poll_is_total_witness:
  "\<exists>p bm'' cs'. endpoint_poll_recv (\<lambda>_. replicate 32 1)
     \<lparr>cs_obf = Some \<lparr>sal_psk = [9]\<rparr>, cs_base = sample_socket [1, 2, 3]\<rparr>
     ([replicate 12 0], [sample_meta]) = Ret (p, bm'', cs')
   \<and> spin_inv (cs_base cs') bm''"
proof -
  let ?h = "\<lambda>_ :: bytes. replicate 32 (1 :: u8)" and ?bm = "([replicate 12 0], [sample_meta])"
  let ?cs = "\<lparr>cs_obf = Some \<lparr>sal_psk = [9 :: u8]\<rparr>, cs_base = sample_socket [1, 2, 3]\<rparr>"
  have h: "digest32 ?h" by (simp add: digest32_def KEY_LEN_def)
  have i: "spin_inv (cs_base ?cs) ?bm"
    using deliver_one_ok [of "[1, 2, 3]" "replicate 12 0" sample_meta]
    by (simp add: spin_inv_def sample_socket_def)
  have c: "cs_obf ?cs = Some \<lparr>sal_psk = [9]\<rparr>" by simp
  from obfuscated_poll_is_total [OF h i c] show ?thesis by blast
qed

end
