(* ===== verification/Client_State.thy ===== *)
theory Client_State
  imports Obf_Socket
begin

text \<open>
  What the client operations share (\<open>src/src/client.rs\<close>): the budgets, the socket recipe, and the
  process state they act on. An endpoint, a connection and the h3 driver of a client are handles to
  things quinn and tokio run; the model keeps of them what the code does to them (closed, aborted),
  because that is what nothing else in the process would do.
\<close>

section \<open>Budgets\<close>

text \<open>\<open>saturating_sub\<close> on durations is subtraction of naturals.\<close>

definition CONNECT_BUDGET :: duration where "CONNECT_BUDGET = from_millis 1500"

definition RESOLVE_TIMEOUT :: duration where "RESOLVE_TIMEOUT = from_millis 500"

definition HANDSHAKE_TIMEOUT :: duration where "HANDSHAKE_TIMEOUT = CONNECT_BUDGET - RESOLVE_TIMEOUT"

definition MIGRATION_PROOF_BUDGET :: duration where "MIGRATION_PROOF_BUDGET = CONNECT_BUDGET"

definition MIGRATION_POLL_INTERVAL :: duration where "MIGRATION_POLL_INTERVAL = from_millis 10"

lemmas budget_defs = CONNECT_BUDGET_def RESOLVE_TIMEOUT_def HANDSHAKE_TIMEOUT_def
  MIGRATION_PROOF_BUDGET_def MIGRATION_POLL_INTERVAL_def from_millis_def

section \<open>State\<close>

record socket_recipe =
  sr_bind :: socket_addr
  sr_obf :: "salamander option"

text \<open>
  A quinn endpoint: the address its socket was bound to, the socket, the default client
  configuration, and whether \<open>Endpoint::close\<close> was called on it.
\<close>

record 'c endpoint =
  ep_bind :: socket_addr
  ep_sock :: client_sock
  ep_config :: 'c
  ep_closed :: bool

text \<open>
  A \<open>QuicClient\<close>: its endpoint (an index into the endpoints of the process), recipe and
  authority, the peer of its connection, the reason the connection was closed with, whether the
  driver task was aborted, and the \<open>retired\<close> flag.
\<close>

record quic_client =
  qc_endpoint :: nat
  qc_recipe :: socket_recipe
  qc_authority :: string
  qc_peer :: socket_addr
  qc_closed :: "string option"
  qc_aborted :: bool
  qc_retired :: bool

text \<open>\<open>LIVE_CONNECTIONS\<close> is an \<open>AtomicUsize\<close>: it wraps. The clock is the time spent waiting.\<close>

record 'c proc =
  p_live :: u64
  p_endpoints :: "'c endpoint list"
  p_clients :: "quic_client list"
  p_clock :: duration

definition live_connections :: "'c proc \<Rightarrow> u32" where
  "live_connections p = ucast (p_live p)"

definition close_endpoint :: "nat \<Rightarrow> 'c proc \<Rightarrow> 'c proc" where
  "close_endpoint i p =
     p\<lparr>p_endpoints := (p_endpoints p)[i := (p_endpoints p ! i)\<lparr>ep_closed := True\<rparr>]\<rparr>"

definition spend :: "duration \<Rightarrow> 'c proc \<Rightarrow> 'c proc" where
  "spend d p = p\<lparr>p_clock := p_clock p + d\<rparr>"

lemma spend_simps [simp]:
  "p_live (spend d p) = p_live p" "p_endpoints (spend d p) = p_endpoints p"
  "p_clients (spend d p) = p_clients p" "p_clock (spend d p) = p_clock p + d"
  by (simp_all add: spend_def)

lemma close_endpoint_simps [simp]:
  "p_live (close_endpoint i p) = p_live p" "p_clients (close_endpoint i p) = p_clients p"
  "p_clock (close_endpoint i p) = p_clock p"
  "length (p_endpoints (close_endpoint i p)) = length (p_endpoints p)"
  by (simp_all add: close_endpoint_def)

lemma close_last_endpoint:
  "p_endpoints p = es @ [e] \<Longrightarrow>
     p_endpoints (close_endpoint (length es) p) = es @ [e\<lparr>ep_closed := True\<rparr>]"
  by (simp add: close_endpoint_def)

end
