(* ===== verification/Tls.thy ===== *)
theory Tls
  imports Salamander
begin

text \<open>
  Certificates and QUIC configurations (\<open>src/src/tls.rs\<close>). The file system is a map from paths to
  contents; what a read or a write answers is an argument, and so are certificate generation
  (rcgen), the checks rustls and quinn make on a configuration, and quinn's defaults.

  The lemmas: a pair that was stored is reused for ever and never overwritten; which failure
  leaves a certificate beside a key that is not its own; the timeouts, ALPN and MTU bound of the
  four configurations.
\<close>

section \<open>Certificate bundles\<close>

record cert_bundle =
  cb_cert :: bytes
  cb_key_der :: bytes

definition self_signed :: "(string list \<Rightarrow> anyhow + (bytes \<times> bytes)) \<Rightarrow> string list \<Rightarrow> anyhow + cert_bundle" where
  "self_signed rcgen names =
     (case rcgen names of
        Inl e \<Rightarrow> Inl e
      | Inr (cert, key) \<Rightarrow> Inr \<lparr>cb_cert = cert, cb_key_der = key\<rparr>)"

type_synonym path = string
type_synonym files = "path \<rightharpoonup> bytes"

text \<open>
  \<open>fs::read\<close> answers with the content or fails. \<open>fs::write\<close> stores the bytes or fails, and then
  either leaves the file as it was or leaves what it had written of it.
\<close>

datatype write_answer = Written | Not_written io_error "bytes option"

record fs_answers =
  fa_read :: "path \<Rightarrow> io_error option"
  fa_write :: "path \<Rightarrow> bytes \<Rightarrow> write_answer"
  fa_show :: "io_error \<Rightarrow> string"

definition fs_read :: "fs_answers \<Rightarrow> string \<Rightarrow> path \<Rightarrow> bytes \<Rightarrow> anyhow + bytes" where
  "fs_read env what path content =
     (case fa_read env path of
        None \<Rightarrow> Inr content
      | Some e \<Rightarrow> Inl (context_of (what @ path) [fa_show env e]))"

definition fs_write :: "fs_answers \<Rightarrow> string \<Rightarrow> path \<Rightarrow> bytes \<Rightarrow> files \<Rightarrow> (anyhow + unit) \<times> files" where
  "fs_write env what path content fs =
     (case fa_write env path content of
        Written \<Rightarrow> (Inr (), fs(path \<mapsto> content))
      | Not_written e left \<Rightarrow>
          (Inl (context_of (what @ path) [fa_show env e]),
           (case left of None \<Rightarrow> fs | Some c \<Rightarrow> fs(path \<mapsto> c))))"

definition load_or_generate ::
  "fs_answers \<Rightarrow> (string list \<Rightarrow> anyhow + (bytes \<times> bytes)) \<Rightarrow> string list \<Rightarrow> path \<Rightarrow> path \<Rightarrow> files
     \<Rightarrow> (anyhow + cert_bundle) \<times> files" where
  "load_or_generate env rcgen names cert_path key_path fs =
     (case (fs cert_path, fs key_path) of
        (Some cert_file, Some key_file) \<Rightarrow>
          (case fs_read env ''read cert '' cert_path cert_file of
             Inl e \<Rightarrow> (Inl e, fs)
           | Inr cert \<Rightarrow>
               (case fs_read env ''read key '' key_path key_file of
                  Inl e \<Rightarrow> (Inl e, fs)
                | Inr key \<Rightarrow> (Inr \<lparr>cb_cert = cert, cb_key_der = key\<rparr>, fs)))
      | _ \<Rightarrow>
          (case self_signed rcgen names of
             Inl e \<Rightarrow> (Inl e, fs)
           | Inr bundle \<Rightarrow>
               (case fs_write env ''write cert '' cert_path (cb_cert bundle) fs of
                  (Inl e, fs1) \<Rightarrow> (Inl e, fs1)
                | (Inr _, fs1) \<Rightarrow>
                    (case fs_write env ''write key '' key_path (cb_key_der bundle) fs1 of
                       (Inl e, fs2) \<Rightarrow> (Inl e, fs2)
                     | (Inr _, fs2) \<Rightarrow> (Inr bundle, fs2)))))"

definition reads_succeed :: "fs_answers \<Rightarrow> bool" where
  "reads_succeed env \<longleftrightarrow> (\<forall>p. fa_read env p = None)"

lemma load_existing:
  "fs cert = Some c \<Longrightarrow> fs key = Some k \<Longrightarrow>
     load_or_generate env rcgen names cert key fs =
       (case fa_read env cert of
          Some e \<Rightarrow> (Inl [''read cert '' @ cert, fa_show env e], fs)
        | None \<Rightarrow>
            (case fa_read env key of
               Some e \<Rightarrow> (Inl [''read key '' @ key, fa_show env e], fs)
             | None \<Rightarrow> (Inr \<lparr>cb_cert = c, cb_key_der = k\<rparr>, fs)))"
  by (simp add: load_or_generate_def fs_read_def context_of_def split: option.splits)

lemma generated_is_stored:
  assumes "load_or_generate env rcgen names cert key fs = (Inr b, fs')" and "cert \<noteq> key"
  shows "fs' cert = Some (cb_cert b) \<and> fs' key = Some (cb_key_der b)"
  using assms
  by (auto simp: load_or_generate_def fs_read_def fs_write_def
      split: option.splits sum.splits prod.splits write_answer.splits if_splits)

section \<open>Transport configurations\<close>

definition QUIC_KEEP_ALIVE_SECS :: nat where "QUIC_KEEP_ALIVE_SECS = 15"

definition QUIC_MAX_IDLE_SECS :: nat where "QUIC_MAX_IDLE_SECS = 30"

definition ALPN_H3 :: string where "ALPN_H3 = ''h3''"

definition OBF_OVERHEAD :: u16 where "OBF_OVERHEAD = of_nat SALT_LEN"

definition MTUD_UPPER_BOUND :: u16 where "MTUD_UPPER_BOUND = 1452"

text \<open>
  The fields of quinn's configurations that the code sets; the extension types stand for the
  rest of quinn's defaults. \<open>'i\<close> is quinn's \<open>IdleTimeout\<close>, to which a duration converts or not.
\<close>

record mtu_discovery =
  md_upper_bound :: u16

record ('i, 'm) transport_config =
  tc_keep_alive :: "duration option"
  tc_max_idle :: "'i option"
  tc_mtu_discovery :: "'m mtu_discovery_scheme option"

record ('i, 'm, 'z) quinn_defaults =
  qd_transport :: "('i, 'm, 'z) transport_config_scheme"
  qd_mtu :: "'m mtu_discovery_scheme"
  qd_idle :: "duration \<Rightarrow> anyhow + 'i"

definition build_transport_config ::
  "('i, 'm, 'z) quinn_defaults \<Rightarrow> duration \<Rightarrow> duration \<Rightarrow> anyhow + ('i, 'm, 'z) transport_config_scheme" where
  "build_transport_config q keep_alive max_idle =
     (let tc = (qd_transport q)\<lparr>tc_keep_alive := Some keep_alive\<rparr> in
      case qd_idle q max_idle of
        Inl e \<Rightarrow> Inl e
      | Inr idle \<Rightarrow> Inr (tc\<lparr>tc_max_idle := Some idle\<rparr>))"

definition default_transport_config ::
  "('i, 'm, 'z) quinn_defaults \<Rightarrow> anyhow + ('i, 'm, 'z) transport_config_scheme" where
  "default_transport_config q =
     build_transport_config q (from_secs QUIC_KEEP_ALIVE_SECS) (from_secs QUIC_MAX_IDLE_SECS)"

definition obf_transport_config ::
  "('i, 'm, 'z) quinn_defaults \<Rightarrow> anyhow + ('i, 'm, 'z) transport_config_scheme" where
  "obf_transport_config q =
     (let tc = (qd_transport q)\<lparr>tc_keep_alive := Some (from_secs QUIC_KEEP_ALIVE_SECS)\<rparr> in
      case qd_idle q (from_secs QUIC_MAX_IDLE_SECS) of
        Inl e \<Rightarrow> Inl e
      | Inr idle \<Rightarrow>
          (let mtud = (qd_mtu q)\<lparr>md_upper_bound := MTUD_UPPER_BOUND - OBF_OVERHEAD\<rparr>
           in Inr (tc\<lparr>tc_max_idle := Some idle, tc_mtu_discovery := Some mtud\<rparr>)))"

section \<open>Server and client configurations\<close>

record 't server_config =
  sc_chain :: "bytes list"
  sc_key :: bytes
  sc_alpn :: "string list"
  sc_transport :: 't

record 't client_config =
  cc_roots :: "bytes list"
  cc_alpn :: "string list"
  cc_transport :: 't

text \<open>
  What rustls and quinn refuse: a certificate chain with its key, a root certificate, a TLS
  configuration unfit for QUIC.
\<close>

record tls_checks =
  ck_single_cert :: "bytes list \<Rightarrow> bytes \<Rightarrow> anyhow option"
  ck_root :: "bytes \<Rightarrow> anyhow option"
  ck_quic_server :: "bytes list \<Rightarrow> bytes \<Rightarrow> string list \<Rightarrow> anyhow option"
  ck_quic_client :: "bytes list \<Rightarrow> string list \<Rightarrow> anyhow option"

definition server_config_tuned :: "tls_checks \<Rightarrow> cert_bundle \<Rightarrow> 't \<Rightarrow> anyhow + 't server_config" where
  "server_config_tuned ck bundle transport =
     (let chain = [cb_cert bundle]; key = cb_key_der bundle; alpn = [ALPN_H3] in
      case ck_single_cert ck chain key of
        Some e \<Rightarrow> Inl e
      | None \<Rightarrow>
          (case ck_quic_server ck chain key alpn of
             Some e \<Rightarrow> Inl e
           | None \<Rightarrow> Inr \<lparr>sc_chain = chain, sc_key = key, sc_alpn = alpn, sc_transport = transport\<rparr>))"

definition client_config_tuned :: "tls_checks \<Rightarrow> cert_bundle \<Rightarrow> 't \<Rightarrow> anyhow + 't client_config" where
  "client_config_tuned ck trust transport =
     (let roots = [cb_cert trust]; alpn = [ALPN_H3] in
      case ck_root ck (cb_cert trust) of
        Some e \<Rightarrow> Inl e
      | None \<Rightarrow>
          (case ck_quic_client ck roots alpn of
             Some e \<Rightarrow> Inl e
           | None \<Rightarrow> Inr \<lparr>cc_roots = roots, cc_alpn = alpn, cc_transport = transport\<rparr>))"

definition with_transport :: "(anyhow + 't) \<Rightarrow> ('t \<Rightarrow> anyhow + 'c) \<Rightarrow> anyhow + 'c" where
  "with_transport t f = (case t of Inl e \<Rightarrow> Inl e | Inr tc \<Rightarrow> f tc)"

definition server_config ::
  "('i, 'm, 'z) quinn_defaults \<Rightarrow> tls_checks \<Rightarrow> cert_bundle \<Rightarrow>
     anyhow + ('i, 'm, 'z) transport_config_scheme server_config" where
  "server_config q ck bundle =
     with_transport (default_transport_config q) (server_config_tuned ck bundle)"

definition server_config_obf ::
  "('i, 'm, 'z) quinn_defaults \<Rightarrow> tls_checks \<Rightarrow> cert_bundle \<Rightarrow>
     anyhow + ('i, 'm, 'z) transport_config_scheme server_config" where
  "server_config_obf q ck bundle =
     with_transport (obf_transport_config q) (server_config_tuned ck bundle)"

definition client_config ::
  "('i, 'm, 'z) quinn_defaults \<Rightarrow> tls_checks \<Rightarrow> cert_bundle \<Rightarrow>
     anyhow + ('i, 'm, 'z) transport_config_scheme client_config" where
  "client_config q ck trust =
     with_transport (default_transport_config q) (client_config_tuned ck trust)"

definition client_config_obf ::
  "('i, 'm, 'z) quinn_defaults \<Rightarrow> tls_checks \<Rightarrow> cert_bundle \<Rightarrow>
     anyhow + ('i, 'm, 'z) transport_config_scheme client_config" where
  "client_config_obf q ck trust =
     with_transport (obf_transport_config q) (client_config_tuned ck trust)"

section \<open>Properties\<close>

text \<open>
  The gateway certificate is stable across restarts. Once a start has returned a pair, every
  later start whose reads succeed returns the same pair and writes nothing, whatever rcgen or the
  disk would answer then.
\<close>

theorem stored_pair_is_reused:
  assumes "load_or_generate env rcgen names cert key fs = (Inr b, fs')" and "cert \<noteq> key"
    and "reads_succeed env'"
  shows "load_or_generate env' rcgen' names' cert key fs' = (Inr b, fs')"
  using generated_is_stored [OF assms(1,2)] assms(3)
  by (simp add: load_existing reads_succeed_def)

theorem stored_pair_is_reused_witness:
  "load_or_generate \<lparr>fa_read = \<lambda>_. None, fa_write = \<lambda>_ _. Not_written (Simple_error Other) None, fa_show = \<lambda>_. []\<rparr>
     (\<lambda>_. Inr ([3], [4])) [''b''] ''c'' ''k'' [''c'' \<mapsto> [1], ''k'' \<mapsto> [2]]
   = (Inr \<lparr>cb_cert = [1], cb_key_der = [2]\<rparr>, [''c'' \<mapsto> [1], ''k'' \<mapsto> [2]])"
proof -
  have "load_or_generate \<lparr>fa_read = \<lambda>_. None, fa_write = \<lambda>_ _. Written, fa_show = \<lambda>_. []\<rparr>
     (\<lambda>_. Inr ([1], [2])) [''a''] ''c'' ''k'' Map.empty
   = (Inr \<lparr>cb_cert = [1], cb_key_der = [2]\<rparr>, [''c'' \<mapsto> [1], ''k'' \<mapsto> [2]])"
    by (simp add: load_or_generate_def self_signed_def fs_write_def)
  from stored_pair_is_reused [OF this] show ?thesis by (simp add: reads_succeed_def)
qed

text \<open>
  A complete pair is never overwritten: with both files present no call changes the file
  system, even when a read fails, and a bundle that is returned is the stored one.
\<close>

theorem complete_pair_is_never_overwritten:
  assumes "fs cert = Some c" and "fs key = Some k"
    and "load_or_generate env rcgen names cert key fs = (r, fs')"
  shows "fs' = fs \<and> (\<forall>b. r = Inr b \<longrightarrow> b = \<lparr>cb_cert = c, cb_key_der = k\<rparr>)"
  using assms(3) unfolding load_existing [OF assms(1,2)] by (auto split: option.splits)

theorem complete_pair_is_never_overwritten_witness:
  "snd (load_or_generate \<lparr>fa_read = (\<lambda>p. if p = ''k'' then Some (Simple_error Other) else None),
      fa_write = \<lambda>_ _. Written, fa_show = \<lambda>_. ''denied''\<rparr> (\<lambda>_. Inr ([3], [4])) [] ''c'' ''k''
      [''c'' \<mapsto> [1], ''k'' \<mapsto> [2]]) = [''c'' \<mapsto> [1], ''k'' \<mapsto> [2]]"
  using complete_pair_is_never_overwritten [of "[''c'' \<mapsto> [1], ''k'' \<mapsto> [2]]" "''c''" "[1]" "''k''" "[2]",
    OF _ _ prod.collapse [symmetric]] by simp

text \<open>
  C39: A start that fails between the two writes can leave a pair that does not belong together.
  When there was no certificate, the new one was written and writing the key failed, whatever then
  lies at the key path (the key of an earlier pair, or the part of the new one that was written)
  is served with the new certificate by every later start whose reads succeed.
\<close>

theorem failed_key_write_is_served:
  assumes "fs cert = None" and "cert \<noteq> key" and "rcgen names = Inr (c, k)"
    and "fa_write env cert c = Written" and "fa_write env key k = Not_written e left"
    and "(case left of None \<Rightarrow> fs key | Some part \<Rightarrow> Some part) = Some old"
    and "reads_succeed env'"
  shows "\<exists>err fs'. load_or_generate env rcgen names cert key fs = (Inl err, fs')
    \<and> load_or_generate env' rcgen' names' cert key fs' = (Inr \<lparr>cb_cert = c, cb_key_der = old\<rparr>, fs')"
proof -
  let ?fs = "(case left of None \<Rightarrow> fs(cert \<mapsto> c) | Some part \<Rightarrow> fs(cert \<mapsto> c, key \<mapsto> part))"
  have "load_or_generate env rcgen names cert key fs
      = (Inl (context_of (''write key '' @ key) [fa_show env e]), ?fs)"
    using assms(1-5)
    by (simp add: load_or_generate_def self_signed_def fs_write_def split: option.splits)
  moreover have "?fs cert = Some c" and "?fs key = Some old"
    using assms(2,6) by (auto split: option.splits)
  ultimately show ?thesis
    using assms(7) by (simp add: load_existing reads_succeed_def)
qed

theorem failed_key_write_is_served_witness:
  "\<exists>err fs'. load_or_generate
       \<lparr>fa_read = \<lambda>_. None, fa_write = (\<lambda>p _. if p = ''k'' then Not_written (Os_error 28 Other) (Some []) else Written),
        fa_show = \<lambda>_. ''no space''\<rparr> (\<lambda>_. Inr ([1], [2])) [''gw''] ''c'' ''k'' Map.empty = (Inl err, fs')
     \<and> load_or_generate \<lparr>fa_read = \<lambda>_. None, fa_write = \<lambda>_ _. Written, fa_show = \<lambda>_. []\<rparr>
         (\<lambda>_. Inr ([1], [2])) [''gw''] ''c'' ''k'' fs' = (Inr \<lparr>cb_cert = [1], cb_key_der = []\<rparr>, fs')"
proof -
  let ?env = "\<lparr>fa_read = \<lambda>_. None, fa_write = (\<lambda>p _. if p = ''k'' then Not_written (Os_error 28 Other) (Some [])
      else Written), fa_show = \<lambda>_. ''no space''\<rparr>"
  let ?env' = "\<lparr>fa_read = \<lambda>_. None, fa_write = \<lambda>_ _. Written, fa_show = \<lambda>_. []\<rparr>"
  show ?thesis
    by (rule failed_key_write_is_served [where e = "Os_error 28 Other" and left = "Some []" and k = "[2]"])
       (simp_all add: reads_succeed_def)
qed

text \<open>Quinn's defaults and checks that refuse nothing, for the witnesses.\<close>

definition sample_quinn :: "(nat, unit, unit) quinn_defaults" where
  "sample_quinn = \<lparr>qd_transport = \<lparr>tc_keep_alive = None, tc_max_idle = None, tc_mtu_discovery = None\<rparr>,
      qd_mtu = \<lparr>md_upper_bound = 1452\<rparr>, qd_idle = (\<lambda>d. Inr (as_millis d))\<rparr>"

definition sample_checks :: tls_checks where
  "sample_checks = \<lparr>ck_single_cert = \<lambda>_ _. None, ck_root = \<lambda>_. None,
     ck_quic_server = \<lambda>_ _ _. None, ck_quic_client = \<lambda>_ _. None\<rparr>"

text \<open>
  On an obfuscated connection a QUIC packet is within the probed MTU exactly when its datagram
  on the wire, salt included, is within 1452 bytes: the 8 bytes of overhead are never what makes a
  datagram too large for the path, and none of the path is given away.
\<close>

theorem obfuscated_datagrams_fit_the_path:
  assumes "obf_transport_config q = Inr tc" and "length salt = SALT_LEN"
  shows "\<exists>mtud. tc_mtu_discovery tc = Some mtud
    \<and> (length plain \<le> unat (md_upper_bound mtud) \<longleftrightarrow>
       length (wire_of blake s salt plain) \<le> unat MTUD_UPPER_BOUND)"
proof -
  have "MTUD_UPPER_BOUND - OBF_OVERHEAD = 1444"
    by (simp add: MTUD_UPPER_BOUND_def OBF_OVERHEAD_def SALT_LEN_def)
  then show ?thesis
    using assms
    by (auto simp: obf_transport_config_def Let_def wire_simps SALT_LEN_def MTUD_UPPER_BOUND_def
        OBF_OVERHEAD_def split: sum.splits)
qed

theorem obfuscated_datagrams_fit_the_path_witness:
  "\<exists>mtud. tc_mtu_discovery \<lparr>tc_keep_alive = Some (from_secs 15), tc_max_idle = Some (30000 :: nat),
        tc_mtu_discovery = Some \<lparr>md_upper_bound = 1444\<rparr>\<rparr> = Some mtud
    \<and> (length (replicate 1444 (0 :: u8)) \<le> unat (md_upper_bound mtud) \<longleftrightarrow>
       length (wire_of (\<lambda>_. []) \<lparr>sal_psk = []\<rparr> (replicate 8 0) (replicate 1444 0)) \<le> unat MTUD_UPPER_BOUND)"
proof -
  have q: "obf_transport_config sample_quinn = Inr \<lparr>tc_keep_alive = Some (from_secs 15), tc_max_idle = Some 30000,
      tc_mtu_discovery = Some \<lparr>md_upper_bound = 1444\<rparr>\<rparr>"
    by (simp add: sample_quinn_def obf_transport_config_def QUIC_KEEP_ALIVE_SECS_def QUIC_MAX_IDLE_SECS_def
        MTUD_UPPER_BOUND_def OBF_OVERHEAD_def SALT_LEN_def as_millis_def from_secs_def)
  have l: "length (replicate 8 (0 :: u8)) = SALT_LEN" by (simp add: SALT_LEN_def)
  from obfuscated_datagrams_fit_the_path [OF q l] show ?thesis .
qed

text \<open>
  The two ends of a connection, plain or obfuscated, run on the same transport settings and
  the same single ALPN, with the keep-alive below the idle timeout and exactly the pinned
  certificate as root; the obfuscated settings differ from the plain ones in the MTU cap alone.
\<close>

theorem both_ends_agree:
  assumes "client_config q ck trust = Inr c" and "server_config q ck' bundle = Inr s"
    and "client_config_obf q ck trust = Inr co" and "server_config_obf q ck' bundle = Inr so"
  shows "cc_transport c = sc_transport s \<and> cc_transport co = sc_transport so
    \<and> cc_alpn c = [ALPN_H3] \<and> sc_alpn s = cc_alpn c \<and> cc_alpn co = cc_alpn c \<and> sc_alpn so = cc_alpn c
    \<and> cc_roots c = [cb_cert trust] \<and> cc_roots co = [cb_cert trust]
    \<and> (\<exists>i. qd_idle q (from_secs QUIC_MAX_IDLE_SECS) = Inr i
         \<and> tc_max_idle (cc_transport c) = Some i
         \<and> tc_keep_alive (cc_transport c) = Some (from_secs QUIC_KEEP_ALIVE_SECS)
         \<and> from_secs QUIC_KEEP_ALIVE_SECS < from_secs QUIC_MAX_IDLE_SECS)
    \<and> (\<exists>m. cc_transport co = (cc_transport c)\<lparr>tc_mtu_discovery := Some m\<rparr>
         \<and> md_upper_bound m = MTUD_UPPER_BOUND - OBF_OVERHEAD)"
  using assms
  by (auto simp: client_config_def server_config_def client_config_obf_def server_config_obf_def
      with_transport_def default_transport_config_def build_transport_config_def
      obf_transport_config_def client_config_tuned_def server_config_tuned_def Let_def
      QUIC_KEEP_ALIVE_SECS_def QUIC_MAX_IDLE_SECS_def from_secs_def
      split: sum.splits option.splits)

theorem both_ends_agree_witness:
  "\<exists>c s. client_config sample_quinn sample_checks \<lparr>cb_cert = [7], cb_key_der = [8]\<rparr> = Inr c
     \<and> server_config sample_quinn sample_checks \<lparr>cb_cert = [7], cb_key_der = [8]\<rparr> = Inr s
     \<and> cc_transport c = sc_transport s \<and> cc_roots c = sc_chain s"
proof -
  let ?b = "\<lparr>cb_cert = [7], cb_key_der = [8]\<rparr>"
  note defs = client_config_def server_config_def client_config_obf_def server_config_obf_def
      with_transport_def default_transport_config_def build_transport_config_def
      obf_transport_config_def client_config_tuned_def server_config_tuned_def Let_def
      sample_quinn_def sample_checks_def
  obtain c s co so where r: "client_config sample_quinn sample_checks ?b = Inr c"
    "server_config sample_quinn sample_checks ?b = Inr s"
    "client_config_obf sample_quinn sample_checks ?b = Inr co"
    "server_config_obf sample_quinn sample_checks ?b = Inr so"
    by (simp add: defs)
  moreover have "sc_chain s = [[7]]" using r(2) by (auto simp: defs)
  ultimately show ?thesis using both_ends_agree [OF r] by simp
qed

end
