(* ===== verification/Client_Connect.thy ===== *)
theory Client_Connect
  imports Client_State Tls
begin

text \<open>
  Connecting (\<open>src/src/client.rs\<close>): resolution, the dial plan, one handshake per candidate address,
  and the two entry points \<open>connect\<close> and \<open>connect_obfuscated\<close>.

  What the resolver, the kernel, quinn and h3 answer is the record \<open>net\<close>; an answer that is
  awaited comes with the time it took. The candidates of a dial are distinct, so one answer per
  address is all a run can see.

  The lemmas: the candidate list and the plan in closed form, and \<open>dial_spec\<close>, which describes a
  dial by the first candidate whose attempt succeeds; the properties follow from it.
\<close>

section \<open>Addresses\<close>

text \<open>The unspecified address of the peer's family, with an ephemeral port.\<close>

definition bind_addr_for :: "socket_addr \<Rightarrow> socket_addr" where
  "bind_addr_for peer =
     (case peer of Addr_v4 _ _ \<Rightarrow> Addr_v4 0 0 | Addr_v6 _ _ _ _ \<Rightarrow> Addr_v6 0 0 0 0)"

fun dial_candidates_loop :: "socket_addr list \<Rightarrow> socket_addr list \<Rightarrow> socket_addr list" where
  "dial_candidates_loop out [] = out"
| "dial_candidates_loop out (addr # addrs) =
     (if addr \<in> set out then dial_candidates_loop out addrs
      else dial_candidates_loop (out @ [addr]) addrs)"

definition dial_candidates :: "socket_addr list \<Rightarrow> socket_addr list" where
  "dial_candidates addrs = dial_candidates_loop [] addrs"

section \<open>The plan\<close>

definition MIN_ATTEMPT :: duration where "MIN_ATTEMPT = from_millis 250"

text \<open>\<open>HANDSHAKE_TIMEOUT / n as u32\<close> panics when the divisor is 0.\<close>

definition dial_plan :: "nat \<Rightarrow> (nat \<times> duration) rust" where
  "dial_plan candidate_count =
     (let max_fits = max (as_millis HANDSHAKE_TIMEOUT div as_millis MIN_ATTEMPT) 1;
          n = min (max candidate_count 1) max_fits;
          divisor = unat (of_nat n :: u32)
      in if divisor = 0 then Panic else Ret (n, HANDSHAKE_TIMEOUT div divisor))"

section \<open>What the outside answers\<close>

datatype lookup_answer = Lookup_elapsed | Lookup_failed anyhow | Lookup_found "socket_addr list"

datatype handshake_answer = Handshake_elapsed | Handshake_failed anyhow | Handshake_done

record net =
  net_runtime :: bool
  net_bind :: "socket_addr \<Rightarrow> spin_socket io_result"
  net_endpoint :: "client_sock \<Rightarrow> unit io_result"
  net_lookup :: "duration \<Rightarrow> lookup_answer \<times> duration"
  net_start :: "socket_addr \<Rightarrow> anyhow option"
  net_handshake :: "socket_addr \<Rightarrow> duration \<Rightarrow> handshake_answer \<times> duration"
  net_h3 :: "socket_addr \<Rightarrow> anyhow option \<times> duration"
  net_show_addr :: "socket_addr \<Rightarrow> string"
  net_show_io :: "io_error \<Rightarrow> string"

definition elapsed_error :: anyhow where
  "elapsed_error = [''deadline has elapsed'']"

section \<open>Resolution\<close>

definition resolve_all ::
  "net \<Rightarrow> string \<Rightarrow> 'c proc \<Rightarrow> (anyhow + socket_addr list) \<times> 'c proc" where
  "resolve_all net host_port p =
     (let (found, t) = net_lookup net RESOLVE_TIMEOUT; p1 = spend t p in
      case found of
        Lookup_elapsed \<Rightarrow> (Inl (context_of (''DNS timed out for '' @ host_port) elapsed_error), p1)
      | Lookup_failed e \<Rightarrow> (Inl (context_of (''resolve '' @ host_port) e), p1)
      | Lookup_found addrs \<Rightarrow>
          (let candidates = dial_candidates addrs in
           if candidates = [] then (Inl [''no address for '' @ host_port], p1)
           else (Inr candidates, p1)))"

section \<open>One handshake\<close>

definition handshake ::
  "net \<Rightarrow> nat \<Rightarrow> socket_recipe \<Rightarrow> socket_addr \<Rightarrow> string \<Rightarrow> duration \<Rightarrow> 'c proc
     \<Rightarrow> (anyhow + nat) \<times> 'c proc" where
  "handshake net endpoint recipe addr server_name budget p =
     (case net_start net addr of
        Some e \<Rightarrow> (Inl (context_of ''start connect'' e), close_endpoint endpoint p)
      | None \<Rightarrow>
          (let (conn, t) = net_handshake net addr budget; p1 = spend t p in
           case conn of
             Handshake_elapsed \<Rightarrow>
               (Inl (context_of (''QUIC handshake timed out to '' @ net_show_addr net addr) elapsed_error),
                close_endpoint endpoint p1)
           | Handshake_failed e \<Rightarrow>
               (Inl (context_of (''QUIC handshake failed to '' @ net_show_addr net addr) e),
                close_endpoint endpoint p1)
           | Handshake_done \<Rightarrow>
               (let (h3, t3) = net_h3 net addr; p2 = spend t3 p1 in
                case h3 of
                  Some e \<Rightarrow> (Inl e, close_endpoint endpoint p2)
                | None \<Rightarrow>
                    (Inr (length (p_clients p2)),
                     p2\<lparr>p_live := p_live p2 + 1,
                        p_clients := p_clients p2 @
                          [\<lparr>qc_endpoint = endpoint, qc_recipe = recipe, qc_authority = server_name,
                            qc_peer = addr, qc_closed = None, qc_aborted = False,
                            qc_retired = False\<rparr>]\<rparr>))))"

section \<open>Dialling\<close>

text \<open>
  \<open>open\<close> is the closure of \<open>connect\<close> or \<open>connect_obfuscated\<close>; the endpoint it returns joins the
  endpoints of the process.
\<close>

fun dial_loop ::
  "net \<Rightarrow> (socket_addr \<Rightarrow> anyhow + ('c endpoint \<times> socket_recipe)) \<Rightarrow> string \<Rightarrow> duration
     \<Rightarrow> socket_addr list \<Rightarrow> string list \<Rightarrow> 'c proc \<Rightarrow> (anyhow + nat) \<times> 'c proc" where
  "dial_loop net open server_name budget [] failures p =
     (Inl [''QUIC handshake failed ('' @
        (if failures = [] then ''no address'' else join_with ''; '' failures) @ '')''], p)"
| "dial_loop net open server_name budget (addr # addrs) failures p =
     (case open addr of
        Inl e \<Rightarrow>
          dial_loop net open server_name budget addrs
            (failures @ [net_show_addr net addr @ '': '' @ show_chain e]) p
      | Inr (endpoint, recipe) \<Rightarrow>
          (case handshake net (length (p_endpoints p)) recipe addr server_name budget
                  (p\<lparr>p_endpoints := p_endpoints p @ [endpoint]\<rparr>) of
             (Inr client, p') \<Rightarrow> (Inr client, p')
           | (Inl e, p') \<Rightarrow>
               dial_loop net open server_name budget addrs (failures @ [show_chain e]) p'))"

definition dial ::
  "net \<Rightarrow> (socket_addr \<Rightarrow> anyhow + ('c endpoint \<times> socket_recipe)) \<Rightarrow> string
     \<Rightarrow> socket_addr list \<Rightarrow> 'c proc \<Rightarrow> ((anyhow + nat) \<times> 'c proc) rust" where
  "dial net open server_name candidates p =
     rust_bind (dial_plan (length candidates)) (\<lambda>(n, budget).
     Ret (dial_loop net open server_name budget (take n candidates) [] p))"

section \<open>Connecting\<close>

definition trust_bundle :: "bytes \<Rightarrow> cert_bundle" where
  "trust_bundle trust_cert = \<lparr>cb_cert = trust_cert, cb_key_der = []\<rparr>"

definition bind_endpoint :: "net \<Rightarrow> socket_addr \<Rightarrow> anyhow + client_sock" where
  "bind_endpoint net addr =
     (if \<not> net_runtime net then Inl [''no async runtime for QUIC endpoint'']
      else case client_socket (net_bind net addr) None of
             Inl e \<Rightarrow> Inl [net_show_io net e]
           | Inr socket \<Rightarrow>
               (case net_endpoint net socket of
                  Inl e \<Rightarrow> Inl [net_show_io net e]
                | Inr _ \<Rightarrow> Inr socket))"

definition open_plain :: "net \<Rightarrow> 'c \<Rightarrow> socket_addr \<Rightarrow> anyhow + ('c endpoint \<times> socket_recipe)" where
  "open_plain net cfg addr =
     (let recipe = \<lparr>sr_bind = bind_addr_for addr, sr_obf = None\<rparr> in
      case bind_endpoint net (sr_bind recipe) of
        Inl e \<Rightarrow> Inl (context_of ''bind client endpoint'' e)
      | Inr socket \<Rightarrow>
          Inr (\<lparr>ep_bind = sr_bind recipe, ep_sock = socket, ep_config = cfg, ep_closed = False\<rparr>, recipe))"

definition open_obfuscated ::
  "net \<Rightarrow> salamander \<Rightarrow> 'c \<Rightarrow> socket_addr \<Rightarrow> anyhow + ('c endpoint \<times> socket_recipe)" where
  "open_obfuscated net obf cfg addr =
     (let recipe = \<lparr>sr_bind = bind_addr_for addr, sr_obf = Some obf\<rparr> in
      case obfuscated_client_endpoint (if net_runtime net then Some () else None)
             (net_bind net (sr_bind recipe))
             (\<lambda>(_ :: unit option) socket _. case net_endpoint net socket of Inl e \<Rightarrow> Inl e | Inr _ \<Rightarrow> Inr socket) obf of
        Inl e \<Rightarrow> Inl (context_of ''bind obfuscated client endpoint'' [net_show_io net e])
      | Inr socket \<Rightarrow>
          Inr (\<lparr>ep_bind = sr_bind recipe, ep_sock = socket, ep_config = cfg, ep_closed = False\<rparr>, recipe))"

text \<open>
  \<open>q\<close> and \<open>ck\<close> are quinn's defaults and the checks of rustls, as in \<open>Tls\<close>; \<open>host_port\<close> is the pair
  as the messages print it.
\<close>

definition connect ::
  "('i, 'm, 'z) quinn_defaults \<Rightarrow> tls_checks \<Rightarrow> net \<Rightarrow> string \<Rightarrow> string \<Rightarrow> bytes
     \<Rightarrow> ('i, 'm, 'z) transport_config_scheme client_config proc
     \<Rightarrow> ((anyhow + nat) \<times> ('i, 'm, 'z) transport_config_scheme client_config proc) rust" where
  "connect q ck net host_port server_name trust_cert p =
     (case client_config q ck (trust_bundle trust_cert) of
        Inl e \<Rightarrow> Ret (Inl e, p)
      | Inr cfg \<Rightarrow>
          (case resolve_all net host_port p of
             (Inl e, p1) \<Rightarrow> Ret (Inl e, p1)
           | (Inr candidates, p1) \<Rightarrow> dial net (open_plain net cfg) server_name candidates p1))"

definition connect_obfuscated ::
  "('i, 'm, 'z) quinn_defaults \<Rightarrow> tls_checks \<Rightarrow> net \<Rightarrow> string \<Rightarrow> string \<Rightarrow> bytes \<Rightarrow> bytes
     \<Rightarrow> ('i, 'm, 'z) transport_config_scheme client_config proc
     \<Rightarrow> ((anyhow + nat) \<times> ('i, 'm, 'z) transport_config_scheme client_config proc) rust" where
  "connect_obfuscated q ck net host_port server_name trust_cert psk p =
     (case client_config_obf q ck (trust_bundle trust_cert) of
        Inl e \<Rightarrow> Ret (Inl e, p)
      | Inr cfg \<Rightarrow>
          (let obf = salamander_new psk in
           case resolve_all net host_port p of
             (Inl e, p1) \<Rightarrow> Ret (Inl e, p1)
           | (Inr candidates, p1) \<Rightarrow> dial net (open_obfuscated net obf cfg) server_name candidates p1))"

section \<open>Candidates and plan in closed form\<close>

lemma first_occurrences_Cons:
  "rev (remdups (rev (addr # xs))) = addr # rev (remdups (rev (filter (\<lambda>a. a \<noteq> addr) xs)))"
  by (induction xs rule: rev_induct) auto

lemma dial_candidates_loop_eq:
  "dial_candidates_loop out addrs =
     out @ rev (remdups (rev (filter (\<lambda>a. a \<notin> set out) addrs)))"
proof (induction out addrs rule: dial_candidates_loop.induct)
  case (2 out addr addrs)
  have "filter (\<lambda>a. a \<notin> set (out @ [addr])) addrs = filter (\<lambda>a. a \<noteq> addr) (filter (\<lambda>a. a \<notin> set out) addrs)"
    by (induction addrs) auto
  with 2 show ?case
    by (cases "addr \<in> set out") (simp_all add: first_occurrences_Cons del: remdups.simps rev.simps)
qed simp

lemma dial_candidates_eq: "dial_candidates addrs = rev (remdups (rev addrs))"
  by (simp add: dial_candidates_def dial_candidates_loop_eq)

lemma dial_candidates_facts [simp]:
  "distinct (dial_candidates addrs)" "set (dial_candidates addrs) = set addrs"
  "dial_candidates addrs = [] \<longleftrightarrow> addrs = []"
  by (simp_all add: dial_candidates_eq)

lemma dial_plan_eq:
  "dial_plan k = Ret (min (max k 1) 4, HANDSHAKE_TIMEOUT div min (max k 1) 4)"
proof -
  define n where n: "n = min (max k 1) 4"
  have range: "n \<in> {1, 2, 3, 4}"
    unfolding n by simp linarith
  have "unat (of_nat n :: u32) = n" "n \<noteq> 0"
    using range by auto
  with n [symmetric] show ?thesis
    by (simp add: dial_plan_def budget_defs MIN_ATTEMPT_def as_millis_def Let_def)
qed

section \<open>One attempt and a dial in closed form\<close>

text \<open>
  What one address contributes to a dial: whether its attempt succeeds, the time it takes, the text it
  adds to the error, and the endpoint it leaves closed.
\<close>

definition handshake_ok :: "net \<Rightarrow> duration \<Rightarrow> socket_addr \<Rightarrow> bool" where
  "handshake_ok net budget addr \<longleftrightarrow>
     net_start net addr = None \<and> fst (net_handshake net addr budget) = Handshake_done
     \<and> fst (net_h3 net addr) = None"

definition handshake_error :: "net \<Rightarrow> duration \<Rightarrow> socket_addr \<Rightarrow> anyhow" where
  "handshake_error net budget addr =
     (case net_start net addr of
        Some e \<Rightarrow> context_of ''start connect'' e
      | None \<Rightarrow>
          (case fst (net_handshake net addr budget) of
             Handshake_elapsed \<Rightarrow>
               context_of (''QUIC handshake timed out to '' @ net_show_addr net addr) elapsed_error
           | Handshake_failed e \<Rightarrow> context_of (''QUIC handshake failed to '' @ net_show_addr net addr) e
           | Handshake_done \<Rightarrow> the (fst (net_h3 net addr))))"

definition handshake_time :: "net \<Rightarrow> duration \<Rightarrow> socket_addr \<Rightarrow> duration" where
  "handshake_time net budget addr =
     (if net_start net addr = None then
        snd (net_handshake net addr budget)
        + (if fst (net_handshake net addr budget) = Handshake_done then snd (net_h3 net addr) else 0)
      else 0)"

definition new_client :: "nat \<Rightarrow> socket_recipe \<Rightarrow> string \<Rightarrow> socket_addr \<Rightarrow> quic_client" where
  "new_client endpoint recipe server_name addr =
     \<lparr>qc_endpoint = endpoint, qc_recipe = recipe, qc_authority = server_name, qc_peer = addr,
      qc_closed = None, qc_aborted = False, qc_retired = False\<rparr>"

lemma handshake_eq:
  "handshake net i recipe addr server_name budget p =
     (let p' = spend (handshake_time net budget addr) p in
      if handshake_ok net budget addr
      then (Inr (length (p_clients p)),
            p'\<lparr>p_live := p_live p + 1,
               p_clients := p_clients p @ [new_client i recipe server_name addr]\<rparr>)
      else (Inl (handshake_error net budget addr), close_endpoint i p'))"
  by (auto simp: handshake_def handshake_ok_def handshake_error_def handshake_time_def new_client_def
      spend_def close_endpoint_def Let_def add.assoc split: option.splits handshake_answer.splits prod.splits)

type_synonym 'c opener = "socket_addr \<Rightarrow> anyhow + ('c endpoint \<times> socket_recipe)"

definition attempt_ok :: "net \<Rightarrow> 'c opener \<Rightarrow> duration \<Rightarrow> socket_addr \<Rightarrow> bool" where
  "attempt_ok net open budget addr \<longleftrightarrow>
     (case open addr of Inl e \<Rightarrow> False | Inr er \<Rightarrow> handshake_ok net budget addr)"

definition attempt_text :: "net \<Rightarrow> 'c opener \<Rightarrow> duration \<Rightarrow> socket_addr \<Rightarrow> string" where
  "attempt_text net open budget addr =
     (case open addr of
        Inl e \<Rightarrow> net_show_addr net addr @ '': '' @ show_chain e
      | Inr er \<Rightarrow> show_chain (handshake_error net budget addr))"

definition attempt_time :: "net \<Rightarrow> 'c opener \<Rightarrow> duration \<Rightarrow> socket_addr \<Rightarrow> duration" where
  "attempt_time net open budget addr =
     (case open addr of Inl e \<Rightarrow> 0 | Inr er \<Rightarrow> handshake_time net budget addr)"

definition left_closed :: "'c opener \<Rightarrow> socket_addr \<Rightarrow> 'c endpoint list" where
  "left_closed open addr = (case open addr of Inl e \<Rightarrow> [] | Inr (ep, r) \<Rightarrow> [ep\<lparr>ep_closed := True\<rparr>])"

lemmas attempt_defs = attempt_ok_def attempt_text_def attempt_time_def left_closed_def

definition after_losers ::
  "net \<Rightarrow> 'c opener \<Rightarrow> duration \<Rightarrow> socket_addr list \<Rightarrow> 'c proc \<Rightarrow> 'c proc" where
  "after_losers net open budget losers p =
     p\<lparr>p_clock := p_clock p + sum_list (map (attempt_time net open budget) losers),
       p_endpoints := p_endpoints p @ concat (map (left_closed open) losers)\<rparr>"

lemma after_losers_simps [simp]:
  "after_losers net open budget [] p = p"
  "after_losers net open budget as (after_losers net open budget bs p) = after_losers net open budget (bs @ as) p"
  "p_live (after_losers net open budget as p) = p_live p"
  "p_clients (after_losers net open budget as p) = p_clients p"
  "p_endpoints (after_losers net open budget as p) = p_endpoints p @ concat (map (left_closed open) as)"
  "p_clock (after_losers net open budget as p) = p_clock p + sum_list (map (attempt_time net open budget) as)"
  by (simp_all add: after_losers_def add.assoc)

definition winner_joins ::
  "net \<Rightarrow> 'c opener \<Rightarrow> duration \<Rightarrow> string \<Rightarrow> socket_addr \<Rightarrow> 'c proc \<Rightarrow> 'c proc" where
  "winner_joins net open budget server_name addr p =
     (case open addr of
        Inl e \<Rightarrow> p
      | Inr (endpoint, recipe) \<Rightarrow>
          p\<lparr>p_live := p_live p + 1, p_endpoints := p_endpoints p @ [endpoint],
            p_clients := p_clients p @ [new_client (length (p_endpoints p)) recipe server_name addr],
            p_clock := p_clock p + handshake_time net budget addr\<rparr>)"

lemma dial_loop_loses:
  assumes "\<forall>a \<in> set losers. \<not> attempt_ok net open budget a"
  shows "dial_loop net open server_name budget (losers @ rest) failures p =
     dial_loop net open server_name budget rest
       (failures @ map (attempt_text net open budget) losers) (after_losers net open budget losers p)"
  using assms
proof (induction losers arbitrary: failures p)
  case (Cons a losers)
  let ?p1 = "after_losers net open budget [a] p"
  have "dial_loop net open server_name budget ((a # losers) @ rest) failures p =
      dial_loop net open server_name budget (losers @ rest) (failures @ [attempt_text net open budget a]) ?p1"
    using Cons.prems
    by (auto simp: attempt_defs after_losers_def handshake_eq Let_def close_endpoint_def spend_def
        split: sum.splits)
  with Cons show ?case
    by simp
qed simp

lemma dial_loop_wins:
  assumes "attempt_ok net open budget a"
  shows "dial_loop net open server_name budget (a # rest) failures p =
     (Inr (length (p_clients p)), winner_joins net open budget server_name a p)"
  using assms
  by (auto simp: attempt_ok_def handshake_eq winner_joins_def spend_def Let_def split: sum.splits)

lemma dial_loop_eq:
  "dial_loop net open server_name budget tried [] p =
     (let losers = takeWhile (\<lambda>a. \<not> attempt_ok net open budget a) tried;
          p1 = after_losers net open budget losers p
      in case dropWhile (\<lambda>a. \<not> attempt_ok net open budget a) tried of
           [] \<Rightarrow> (Inl [''QUIC handshake failed ('' @
                   (if tried = [] then ''no address''
                    else join_with ''; '' (map (attempt_text net open budget) tried)) @ '')''], p1)
         | a # rest \<Rightarrow> (Inr (length (p_clients p)), winner_joins net open budget server_name a p1))"
proof -
  let ?bad = "\<lambda>a. \<not> attempt_ok net open budget a"
  have run: "dial_loop net open server_name budget tried [] p =
      dial_loop net open server_name budget (dropWhile ?bad tried)
        (map (attempt_text net open budget) (takeWhile ?bad tried))
        (after_losers net open budget (takeWhile ?bad tried) p)"
    using dial_loop_loses [of "takeWhile ?bad tried" net "open" budget server_name "dropWhile ?bad tried" "[]" p]
    by (auto dest: set_takeWhileD)
  show ?thesis
  proof (cases "dropWhile ?bad tried")
    case Nil
    then have all: "takeWhile ?bad tried = tried"
      by (metis append_Nil2 takeWhile_dropWhile_id)
    show ?thesis
      unfolding run Nil all by simp
  next
    case (Cons a rest)
    then have ok: "attempt_ok net open budget a"
      by (metis hd_dropWhile list.distinct(1) list.sel(1))
    show ?thesis
      unfolding run Cons dial_loop_wins [OF ok] by simp
  qed
qed

lemma left_closed_all: "\<forall>e \<in> set (concat (map (left_closed open) as)). ep_closed e"
  by (auto simp: left_closed_def split: sum.splits)

text \<open>
  What a dial does to the process: the endpoints that lost are closed; on success the last endpoint is
  the client's.
\<close>

definition dialled ::
  "'c opener \<Rightarrow> string \<Rightarrow> socket_addr set \<Rightarrow> 'c proc \<Rightarrow> anyhow + nat \<Rightarrow> 'c proc \<Rightarrow> bool" where
  "dialled open server_name addrs p r p' \<longleftrightarrow>
     (\<exists>closed. (\<forall>e \<in> set closed. ep_closed e) \<and>
        (case r of
           Inl e \<Rightarrow> p_endpoints p' = p_endpoints p @ closed \<and> p_clients p' = p_clients p
             \<and> p_live p' = p_live p
         | Inr i \<Rightarrow> (\<exists>e recipe addr. open addr = Inr (e, recipe) \<and> addr \<in> addrs
             \<and> p_endpoints p' = p_endpoints p @ closed @ [e] \<and> i = length (p_clients p)
             \<and> p_clients p' = p_clients p
                 @ [new_client (length (p_endpoints p @ closed)) recipe server_name addr]
             \<and> p_live p' = p_live p + 1)))"

lemma dialled_same:
  "p_endpoints p' = p_endpoints p \<Longrightarrow> p_clients p' = p_clients p \<Longrightarrow> p_live p' = p_live p \<Longrightarrow>
     dialled open server_name addrs p (Inl e) p'"
  by (auto simp: dialled_def intro: exI [of _ "[]"])

lemma dialled_spend [simp]:
  "dialled open server_name addrs (spend t p) r p' = dialled open server_name addrs p r p'"
  by (cases r) (simp_all add: dialled_def)

lemma dial_loop_dialled:
  assumes "dial_loop net open server_name budget tried [] p = (r, p')" and "set tried \<subseteq> addrs"
  shows "dialled open server_name addrs p r p'"
proof -
  let ?bad = "\<lambda>a. \<not> attempt_ok net open budget a"
  let ?closed = "concat (map (left_closed open) (takeWhile ?bad tried))"
  show ?thesis
  proof (cases "dropWhile ?bad tried")
    case Nil
    with assms(1) show ?thesis
      unfolding dialled_def by (intro exI [of _ ?closed]) (auto simp: dial_loop_eq left_closed_all Let_def)
  next
    case (Cons a rest)
    then have ok: "attempt_ok net open budget a" and mem: "a \<in> set tried"
      by (metis hd_dropWhile list.distinct(1) list.sel(1)) (metis Cons list.set_intros(1) set_dropWhileD)
    then obtain e recipe where "open a = Inr (e, recipe)"
      by (auto simp: attempt_ok_def split: sum.splits)
    moreover have "a \<in> addrs"
      using mem assms(2) by blast
    ultimately show ?thesis
      using Cons assms(1) unfolding dialled_def
      by (intro exI [of _ ?closed]) (auto simp: dial_loop_eq winner_joins_def left_closed_all Let_def, blast)
  qed
qed

lemma attempt_time_le:
  assumes "\<And>a b. snd (net_handshake net a b) \<le> b" and "\<And>a. snd (net_h3 net a) \<le> h"
  shows "attempt_time net open budget a \<le> budget + h"
    and "handshake_time net budget a \<le> budget + h"
proof -
  show "handshake_time net budget a \<le> budget + h"
    using assms(1) [of a budget] assms(2) [of a] by (simp add: handshake_time_def)
  then show "attempt_time net open budget a \<le> budget + h"
    by (simp add: attempt_time_def split: sum.splits)
qed

lemma dial_loop_time:
  assumes "\<And>a b. snd (net_handshake net a b) \<le> b" and "\<And>a. snd (net_h3 net a) \<le> h"
    and "dial_loop net open server_name budget tried failures p = (r, p')"
  shows "p_clock p' \<le> p_clock p + length tried * (budget + h)"
  using assms(3)
proof (induction tried arbitrary: failures p)
  case (Cons a tried)
  note le = attempt_time_le [OF assms(1,2)]
  show ?case
  proof (cases "attempt_ok net open budget a")
    case True
    with Cons.prems le(2) [of budget a] show ?thesis
      unfolding dial_loop_wins [OF True] by (auto simp: winner_joins_def split: sum.splits)
  next
    case False
    then have "dial_loop net open server_name budget tried (failures @ [attempt_text net open budget a])
        (after_losers net open budget [a] p) = (r, p')"
      using dial_loop_loses [of "[a]" net "open" budget server_name tried failures p] Cons.prems by simp
    from Cons.IH [OF this] le(1) [of "open" budget a] show ?thesis
      by simp
  qed
qed simp

lemma dial_eq:
  "dial net open server_name candidates p =
     (let n = min (max (length candidates) 1) 4 in
      Ret (dial_loop net open server_name (HANDSHAKE_TIMEOUT div n) (take n candidates) [] p))"
  by (simp add: dial_def dial_plan_eq Let_def)

text \<open>The two entry points differ in the configuration they build and in the opener.\<close>

definition connect_via ::
  "(anyhow + 'c) \<Rightarrow> ('c \<Rightarrow> 'c opener) \<Rightarrow> net \<Rightarrow> string \<Rightarrow> string \<Rightarrow> 'c proc
     \<Rightarrow> ((anyhow + nat) \<times> 'c proc) rust" where
  "connect_via config opener net host_port server_name p =
     (case config of
        Inl e \<Rightarrow> Ret (Inl e, p)
      | Inr cfg \<Rightarrow>
          (case resolve_all net host_port p of
             (Inl e, p1) \<Rightarrow> Ret (Inl e, p1)
           | (Inr candidates, p1) \<Rightarrow> dial net (opener cfg) server_name candidates p1))"

lemma connect_forms:
  "connect q ck net host_port server_name cert p =
     connect_via (client_config q ck (trust_bundle cert)) (open_plain net) net host_port server_name p"
  "connect_obfuscated q ck net host_port server_name cert psk p =
     connect_via (client_config_obf q ck (trust_bundle cert)) (open_obfuscated net (salamander_new psk))
       net host_port server_name p"
  by (simp_all add: connect_def connect_obfuscated_def connect_via_def Let_def split: sum.split)

lemma resolve_all_cases:
  obtains e where "resolve_all net host_port p = (Inl e, spend (snd (net_lookup net RESOLVE_TIMEOUT)) p)"
  | addrs where "fst (net_lookup net RESOLVE_TIMEOUT) = Lookup_found addrs" "addrs \<noteq> []"
      "resolve_all net host_port p =
         (Inr (dial_candidates addrs), spend (snd (net_lookup net RESOLVE_TIMEOUT)) p)"
proof (cases "net_lookup net RESOLVE_TIMEOUT")
  case (Pair found t)
  show ?thesis
  proof (cases "\<exists>addrs. found = Lookup_found addrs \<and> addrs \<noteq> []")
    case True
    with Pair show ?thesis
      by (auto simp: resolve_all_def Let_def intro: that(2))
  next
    case False
    with Pair show ?thesis
      by (cases found) (auto simp: resolve_all_def Let_def intro: that(1))
  qed
qed

text \<open>The addresses a dial may try: what the resolver found, none when it found nothing.\<close>

definition resolved :: "net \<Rightarrow> socket_addr set" where
  "resolved net =
     (case fst (net_lookup net RESOLVE_TIMEOUT) of Lookup_found addrs \<Rightarrow> set addrs | _ \<Rightarrow> {})"

lemma connect_via_dialled:
  "\<exists>r p'. connect_via config opener net host_port server_name p = Ret (r, p')
     \<and> (case config of
          Inl e \<Rightarrow> r = Inl e \<and> p' = p
        | Inr cfg \<Rightarrow> dialled (opener cfg) server_name (resolved net) p r p')"
proof (cases config)
  case (Inr cfg)
  let ?p1 = "spend (snd (net_lookup net RESOLVE_TIMEOUT)) p"
  show ?thesis
  proof (cases host_port p rule: resolve_all_cases [of net])
    case (1 e)
    with Inr show ?thesis
      by (simp add: connect_via_def dialled_same)
  next
    case (2 addrs)
    obtain r p' where run: "dial net (opener cfg) server_name (dial_candidates addrs) ?p1 = Ret (r, p')"
      unfolding dial_eq Let_def by (metis surj_pair)
    have "dialled (opener cfg) server_name (set addrs) ?p1 r p'"
      using run by (intro dial_loop_dialled) (auto simp: dial_eq Let_def dest!: in_set_takeD)
    with run 2 Inr show ?thesis
      by (simp add: connect_via_def resolved_def)
  qed
qed (simp add: connect_via_def)

section \<open>Properties\<close>

text \<open>
  The candidates of a dial are the distinct addresses the resolver returned, each at the place of
  its first occurrence.
\<close>

theorem dial_candidates_keep_the_order:
  "dial_candidates addrs = rev (remdups (rev addrs)) \<and> distinct (dial_candidates addrs)
     \<and> set (dial_candidates addrs) = set addrs"
  by (simp add: dial_candidates_eq)

text \<open>
  C23: The plan never panics, dials one to four addresses, gives each at least 250 ms, and its attempts
  together stay within the handshake budget; one address gets all of it, and resolution and handshake
  together are the connect budget.
\<close>

theorem dial_plan_fits_the_budget:
  "\<exists>n budget. dial_plan k = Ret (n, budget) \<and> n = min (max k 1) 4
     \<and> n * budget \<le> HANDSHAKE_TIMEOUT \<and> HANDSHAKE_TIMEOUT < n * (budget + 1)
     \<and> from_millis 250 \<le> budget
     \<and> dial_plan 1 = Ret (1, HANDSHAKE_TIMEOUT) \<and> RESOLVE_TIMEOUT + HANDSHAKE_TIMEOUT = CONNECT_BUDGET"
proof -
  define n where n: "n = min (max k 1) 4"
  have "n \<in> {1, 2, 3, 4}"
    unfolding n by simp linarith
  then have "n * (HANDSHAKE_TIMEOUT div n) \<le> HANDSHAKE_TIMEOUT"
    "HANDSHAKE_TIMEOUT < n * (HANDSHAKE_TIMEOUT div n + 1)" "from_millis 250 \<le> HANDSHAKE_TIMEOUT div n"
    by (auto simp: budget_defs)
  then show ?thesis
    unfolding dial_plan_eq n [symmetric] using n by (simp add: budget_defs)
qed

text \<open>
  C4: A dial tries the planned addresses in order and stops at the first attempt that succeeds: the
  result is that client, or an error naming every attempt that was made; each attempt that lost
  leaves its endpoint closed and took its own time.
\<close>

theorem dial_takes_the_first_success:
  "\<exists>n budget. dial_plan (length candidates) = Ret (n, budget)
     \<and> dial net open server_name candidates p =
       (let tried = take n candidates;
            losers = takeWhile (\<lambda>a. \<not> attempt_ok net open budget a) tried;
            p1 = after_losers net open budget losers p
        in case dropWhile (\<lambda>a. \<not> attempt_ok net open budget a) tried of
             [] \<Rightarrow> Ret (Inl [''QUIC handshake failed ('' @
                   (if tried = [] then ''no address''
                    else join_with ''; '' (map (attempt_text net open budget) tried)) @ '')''], p1)
           | a # rest \<Rightarrow>
               Ret (Inr (length (p_clients p)), winner_joins net open budget server_name a p1))"
proof -
  obtain n budget where plan: "dial_plan (length candidates) = Ret (n, budget)"
    by (simp add: dial_plan_eq)
  show ?thesis
    by (rule exI [of _ n], rule exI [of _ budget])
      (simp add: plan dial_def dial_loop_eq Let_def split del: if_split split: list.split,
       metis dropWhile_eq_Nil_conv list.distinct(1))
qed

definition clean_or_connected :: "'c proc \<Rightarrow> anyhow + nat \<Rightarrow> 'c proc \<Rightarrow> bool" where
  "clean_or_connected p r p' \<longleftrightarrow>
     (\<exists>closed. (\<forall>e \<in> set closed. ep_closed e) \<and>
        (case r of
           Inl e \<Rightarrow> p_endpoints p' = p_endpoints p @ closed \<and> p_clients p' = p_clients p
             \<and> p_live p' = p_live p
         | Inr i \<Rightarrow> (\<exists>e c. p_endpoints p' = p_endpoints p @ closed @ [e] \<and> \<not> ep_closed e
             \<and> p_clients p' = p_clients p @ [c] \<and> i = length (p_clients p)
             \<and> qc_endpoint c = length (p_endpoints p @ closed) \<and> \<not> qc_retired c
             \<and> qc_closed c = None \<and> \<not> qc_aborted c \<and> p_live p' = p_live p + 1)))"

lemma dialled_clean:
  assumes "dialled open server_name addrs p r p'"
    and "\<And>addr e recipe. open addr = Inr (e, recipe) \<Longrightarrow> \<not> ep_closed e"
  shows "clean_or_connected p r p'"
proof (cases r)
  case (Inl e)
  with assms(1) show ?thesis
    by (auto simp: dialled_def clean_or_connected_def)
next
  case (Inr i)
  with assms(1) obtain closed e recipe addr where *: "\<forall>e \<in> set closed. ep_closed e"
    "open addr = Inr (e, recipe)" "p_endpoints p' = p_endpoints p @ closed @ [e]"
    "i = length (p_clients p)" "p_live p' = p_live p + 1"
    "p_clients p' = p_clients p @ [new_client (length (p_endpoints p @ closed)) recipe server_name addr]"
    by (auto simp: dialled_def)
  with assms(2) [OF *(2)] Inr show ?thesis
    unfolding clean_or_connected_def by (intro exI [of _ closed]) (simp add: new_client_def)
qed

lemma clean_or_connected_same [simp]: "clean_or_connected p (Inl e) p"
  by (auto simp: clean_or_connected_def)

lemma open_plain_facts:
  "open_plain net cfg addr = Inr (e, recipe) \<Longrightarrow>
     \<not> ep_closed e \<and> ep_config e = cfg \<and> ep_bind e = bind_addr_for addr \<and> cs_obf (ep_sock e) = None
     \<and> recipe = \<lparr>sr_bind = bind_addr_for addr, sr_obf = None\<rparr>"
  by (auto simp: open_plain_def bind_endpoint_def client_socket_def Let_def split: if_splits sum.splits)

lemma open_obfuscated_facts:
  "open_obfuscated net obf cfg addr = Inr (e, recipe) \<Longrightarrow>
     \<not> ep_closed e \<and> ep_config e = cfg \<and> ep_bind e = bind_addr_for addr \<and> cs_obf (ep_sock e) = Some obf
     \<and> recipe = \<lparr>sr_bind = bind_addr_for addr, sr_obf = Some obf\<rparr>"
  by (auto simp: open_obfuscated_def obfuscated_client_endpoint_def obfuscated_endpoint_def
      client_socket_def Let_def split: if_splits sum.splits)

lemma connect_via_clean:
  assumes "\<And>cfg addr e recipe. opener cfg addr = Inr (e, recipe) \<Longrightarrow> \<not> ep_closed e"
  shows "\<exists>r p'. connect_via config opener net host_port server_name p = Ret (r, p') \<and> clean_or_connected p r p'"
proof -
  obtain r p' where run: "connect_via config opener net host_port server_name p = Ret (r, p')"
    and outcome: "case config of Inl e \<Rightarrow> r = Inl e \<and> p' = p
      | Inr cfg \<Rightarrow> dialled (opener cfg) server_name (resolved net) p r p'"
    using connect_via_dialled by blast
  have "clean_or_connected p r p'"
  proof (cases config)
    case (Inr cfg)
    with outcome have "dialled (opener cfg) server_name (resolved net) p r p'"
      by simp
    then show ?thesis
      by (rule dialled_clean) (rule assms)
  qed (use outcome in simp)
  with run show ?thesis
    by blast
qed

lemma connects_clean:
  assumes "connect q ck net host_port server_name cert p = Ret (r, p')
    \<or> connect_obfuscated q ck net host_port server_name cert psk p = Ret (r, p')"
  shows "clean_or_connected p r p'"
proof -
  have "clean_or_connected p r p'" if run: "connect_via config opener net host_port server_name p = Ret (r, p')"
    and opens: "\<And>cfg addr e recipe. opener cfg addr = Inr (e, recipe) \<Longrightarrow> \<not> ep_closed e" for config opener
  proof -
    have "\<exists>r p'. connect_via config opener net host_port server_name p = Ret (r, p')
        \<and> clean_or_connected p r p'"
      by (rule connect_via_clean) (rule opens)
    with run show ?thesis
      by simp
  qed
  with assms show ?thesis
    unfolding connect_forms by (metis open_plain_facts open_obfuscated_facts)
qed

text \<open>
  C1: Connecting, plain or obfuscated, always returns. It leaves what the process had alone; of the
  endpoints it created all are closed, except on success the last one, which is the new client's; the
  gauge of live connections moves only on success, by one.
\<close>

theorem connect_leaves_no_endpoint_open:
  "(\<exists>r p'. connect q ck net host_port server_name cert p = Ret (r, p') \<and> clean_or_connected p r p')
   \<and> (\<exists>r p'. connect_obfuscated q ck net host_port server_name cert psk p = Ret (r, p')
        \<and> clean_or_connected p r p')"
  unfolding connect_forms
  by (intro conjI connect_via_clean) (auto dest: open_plain_facts open_obfuscated_facts)

definition pinned ::
  "salamander option \<Rightarrow> net \<Rightarrow> string \<Rightarrow> bytes \<Rightarrow> 't client_config proc \<Rightarrow> nat \<Rightarrow> bool" where
  "pinned obf net server_name cert p i \<longleftrightarrow>
     i < length (p_clients p) \<and>
     (let c = p_clients p ! i; e = p_endpoints p ! qc_endpoint c in
        qc_peer c \<in> resolved net \<and> qc_authority c = server_name
        \<and> ep_bind e = bind_addr_for (qc_peer c) \<and> is_ipv4 (ep_bind e) = is_ipv4 (qc_peer c)
        \<and> cs_obf (ep_sock e) = obf \<and> qc_recipe c = \<lparr>sr_bind = ep_bind e, sr_obf = obf\<rparr>
        \<and> cc_roots (ep_config e) = [cert] \<and> cc_alpn (ep_config e) = [ALPN_H3])"

lemma is_ipv4_bind_addr_for [simp]: "is_ipv4 (bind_addr_for a) = is_ipv4 a"
  by (cases a) (simp_all add: bind_addr_for_def)

lemma client_config_facts:
  assumes "client_config q ck (trust_bundle cert) = Inr cfg
    \<or> client_config_obf q ck (trust_bundle cert) = Inr cfg"
  shows "cc_roots cfg = [cert]" and "cc_alpn cfg = [ALPN_H3]"
  using assms
  by (auto simp: client_config_def client_config_obf_def with_transport_def client_config_tuned_def
      trust_bundle_def Let_def split: sum.splits option.splits)

lemma dialled_pinned:
  assumes "dialled open server_name (resolved net) p (Inr i) p'"
    and "\<And>addr e recipe. open addr = Inr (e, recipe) \<Longrightarrow>
      ep_config e = cfg \<and> ep_bind e = bind_addr_for addr \<and> cs_obf (ep_sock e) = obf
      \<and> recipe = \<lparr>sr_bind = bind_addr_for addr, sr_obf = obf\<rparr>"
    and "cc_roots cfg = [cert]" "cc_alpn cfg = [ALPN_H3]"
  shows "pinned obf net server_name cert p' i"
proof -
  obtain closed e recipe addr where *: "open addr = Inr (e, recipe)" "addr \<in> resolved net"
    "p_endpoints p' = (p_endpoints p @ closed) @ [e]" "i = length (p_clients p)"
    "p_clients p' = p_clients p @ [new_client (length (p_endpoints p @ closed)) recipe server_name addr]"
    using assms(1) by (auto simp: dialled_def)
  have "p_endpoints p' ! length (p_endpoints p @ closed) = e"
    unfolding *(3) by (rule nth_append_length)
  with * assms(2) [OF *(1)] assms(3,4) show ?thesis
    by (simp add: pinned_def new_client_def Let_def)
qed

lemma connect_pinned:
  assumes "connect q ck net host_port server_name cert p = Ret (Inr i, p')"
  shows "pinned None net server_name cert p' i"
  using assms connect_via_dialled [of "client_config q ck (trust_bundle cert)" "open_plain net"
    net host_port server_name p]
  by (auto simp: connect_forms split: sum.splits
      dest: open_plain_facts intro!: dialled_pinned intro: client_config_facts)

lemma connect_obfuscated_pinned:
  assumes "connect_obfuscated q ck net host_port server_name cert psk p = Ret (Inr i, p')"
  shows "pinned (Some (salamander_new psk)) net server_name cert p' i"
  using assms connect_via_dialled [of "client_config_obf q ck (trust_bundle cert)"
    "open_obfuscated net (salamander_new psk)" net host_port server_name p]
  by (auto simp: connect_forms split: sum.splits
      dest: open_obfuscated_facts intro!: dialled_pinned intro: client_config_facts)

text \<open>
  C21: A connected client is pinned to what was asked for: its peer is one of the resolved addresses,
  its socket is bound in the family of that peer and obfuscates exactly on the obfuscated path with
  exactly the given key, the recipe kept for a handover describes that very socket, and its only root
  of trust is the given certificate.
\<close>

theorem connected_client_is_pinned:
  assumes "connect q ck net host_port server_name cert p = Ret (Inr i, p1)"
    and "connect_obfuscated q ck net host_port server_name cert psk p = Ret (Inr j, p2)"
  shows "pinned None net server_name cert p1 i
    \<and> pinned (Some (salamander_new psk)) net server_name cert p2 j"
  using connect_pinned [OF assms(1)] connect_obfuscated_pinned [OF assms(2)] by simp

text \<open>
  A network for the witnesses: the name has two addresses, a packet to the first is never answered,
  the second answers after 56 ms; \<open>t3\<close> is how long the set-up of h3 takes.
\<close>

definition sample_net :: "duration \<Rightarrow> net" where
  "sample_net t3 =
     \<lparr>net_runtime = True,
      net_bind = (\<lambda>_. Inr (scripted_socket [] [])),
      net_endpoint = (\<lambda>_. Inr ()),
      net_lookup = (\<lambda>b. (Lookup_found [Addr_v6 1 443 0 0, Addr_v4 7 443], min b (from_millis 20))),
      net_start = (\<lambda>_. None),
      net_handshake = (\<lambda>a b. if is_ipv4 a then (Handshake_done, min b (from_millis 56))
                             else (Handshake_elapsed, b)),
      net_h3 = (\<lambda>_. (None, t3)),
      net_show_addr = (\<lambda>a. if is_ipv4 a then ''v4'' else ''v6''),
      net_show_io = (\<lambda>_. ''io'')\<rparr>"

definition no_proc :: "'c proc" where
  "no_proc = \<lparr>p_live = 0, p_endpoints = [], p_clients = [], p_clock = 0\<rparr>"

lemmas sample_run_simps = connect_def connect_obfuscated_def client_config_def client_config_obf_def
  with_transport_def default_transport_config_def build_transport_config_def
  obf_transport_config_def client_config_tuned_def sample_quinn_def sample_checks_def sample_net_def
  no_proc_def resolve_all_def dial_candidates_def dial_def dial_plan_eq open_plain_def
  open_obfuscated_def obfuscated_client_endpoint_def obfuscated_endpoint_def bind_endpoint_def
  client_socket_def handshake_def budget_defs close_endpoint_def spend_def Let_def

lemma sample_connect:
  "\<exists>p'. connect sample_quinn sample_checks (sample_net t3) ''h:443'' ''h'' [7] no_proc = Ret (Inr 0, p')
      \<and> p_clock p' = 576000000 + t3"
  by (simp add: sample_run_simps flip: numeral_2_eq_2)

lemma sample_connect_obfuscated:
  "\<exists>p'. connect_obfuscated sample_quinn sample_checks (sample_net t3) ''h:443'' ''h'' [7] [1, 2] no_proc
      = Ret (Inr 0, p')"
  by (simp add: sample_run_simps)

theorem connected_client_is_pinned_witness:
  "\<exists>p1 p2. connect sample_quinn sample_checks (sample_net 0) ''h:443'' ''h'' [7] no_proc = Ret (Inr 0, p1)
     \<and> connect_obfuscated sample_quinn sample_checks (sample_net 0) ''h:443'' ''h'' [7] [1, 2] no_proc
         = Ret (Inr 0, p2)
     \<and> pinned None (sample_net 0) ''h'' [7] p1 0
     \<and> pinned (Some (salamander_new [1, 2])) (sample_net 0) ''h'' [7] p2 0"
  using sample_connect [of 0] sample_connect_obfuscated [of 0] connected_client_is_pinned by blast

definition deadlines_kept :: "net \<Rightarrow> bool" where
  "deadlines_kept net \<longleftrightarrow>
     (\<forall>b. snd (net_lookup net b) \<le> b) \<and> (\<forall>a b. snd (net_handshake net a b) \<le> b)"

lemma dial_time:
  assumes "\<And>a b. snd (net_handshake net a b) \<le> b" and "\<And>a. snd (net_h3 net a) \<le> h"
    and "dial net open server_name candidates p = Ret (r, p')"
  shows "p_clock p' \<le> p_clock p + HANDSHAKE_TIMEOUT + 4 * h"
proof -
  define n where n: "n = min (max (length candidates) 1) 4"
  have "dial_loop net open server_name (HANDSHAKE_TIMEOUT div n) (take n candidates) [] p = (r, p')"
    using assms(3) by (simp add: dial_eq n Let_def)
  from dial_loop_time [OF assms(1,2) this]
  have "p_clock p' \<le> p_clock p + length (take n candidates) * (HANDSHAKE_TIMEOUT div n + h)" .
  also have "\<dots> \<le> p_clock p + n * (HANDSHAKE_TIMEOUT div n + h)"
    by (intro add_left_mono mult_right_mono) simp_all
  also have "\<dots> \<le> p_clock p + (HANDSHAKE_TIMEOUT + 4 * h)"
    using n by (simp add: add_mult_distrib2 add_mono)
  finally show ?thesis
    by simp
qed

lemma connect_via_time:
  assumes "deadlines_kept net" and "\<And>a. snd (net_h3 net a) \<le> h"
    and "connect_via config opener net host_port server_name p = Ret (r, p')"
  shows "p_clock p' \<le> p_clock p + CONNECT_BUDGET + 4 * h"
proof (cases config)
  case (Inl e)
  with assms(3) show ?thesis
    by (simp add: connect_via_def)
next
  case (Inr cfg)
  have lookup: "snd (net_lookup net RESOLVE_TIMEOUT) \<le> RESOLVE_TIMEOUT"
    and shake: "\<And>a b. snd (net_handshake net a b) \<le> b"
    using assms(1) by (auto simp: deadlines_kept_def)
  have sum: "RESOLVE_TIMEOUT + HANDSHAKE_TIMEOUT = CONNECT_BUDGET"
    by (simp add: budget_defs)
  show ?thesis
  proof (cases host_port p rule: resolve_all_cases [of net])
    case (1 e)
    with assms(3) Inr lookup sum show ?thesis
      by (auto simp: connect_via_def)
  next
    case (2 addrs)
    with assms(3) Inr
    have "dial net (opener cfg) server_name (dial_candidates addrs)
        (spend (snd (net_lookup net RESOLVE_TIMEOUT)) p) = Ret (r, p')"
      by (simp add: connect_via_def)
    from dial_time [OF shake assms(2) this] lookup sum show ?thesis
      by simp
  qed
qed

text \<open>
  C22: If the resolver and the handshakes are cut off at the deadlines they are given and the set-up of
  h3 never takes more than \<open>h\<close>, then connecting, plain or obfuscated, is over within the connect
  budget plus four times \<open>h\<close>.
\<close>

theorem connect_keeps_to_its_budget:
  assumes "deadlines_kept net" and "\<And>a. snd (net_h3 net a) \<le> h"
    and "connect q ck net host_port server_name cert p = Ret (r, p')
       \<or> connect_obfuscated q ck net host_port server_name cert psk p = Ret (r, p')"
  shows "p_clock p' \<le> p_clock p + CONNECT_BUDGET + 4 * h"
  using assms unfolding connect_forms by (auto dest: connect_via_time)

lemma sample_net_deadlines: "deadlines_kept (sample_net t3)"
  by (simp add: deadlines_kept_def sample_net_def)

theorem connect_keeps_to_its_budget_witness:
  "\<exists>p'. connect sample_quinn sample_checks (sample_net 5) ''h:443'' ''h'' [7] no_proc = Ret (Inr 0, p')
     \<and> p_clock p' \<le> CONNECT_BUDGET + 20"
proof -
  obtain p' where run: "connect sample_quinn sample_checks (sample_net 5) ''h:443'' ''h'' [7] no_proc
      = Ret (Inr 0, p')"
    using sample_connect [of 5] by blast
  have "p_clock p' \<le> p_clock (no_proc :: (nat, unit, unit) transport_config_scheme client_config proc)
      + CONNECT_BUDGET + 4 * 5"
    by (rule connect_keeps_to_its_budget [OF sample_net_deadlines _ disjI1 [OF run]])
      (simp add: sample_net_def)
  with run show ?thesis
    by (simp add: no_proc_def)
qed

text \<open>
  The connect budget does not cover the set-up of h3, which is awaited outside any timeout: with
  every deadline kept, a successful connect can take longer than any given time.
\<close>

theorem h3_setup_has_no_deadline:
  "\<exists>net p'. deadlines_kept net
     \<and> connect sample_quinn sample_checks net ''h:443'' ''h'' [7] no_proc = Ret (Inr 0, p')
     \<and> CONNECT_BUDGET + T < p_clock p'"
proof -
  obtain p' where "connect sample_quinn sample_checks (sample_net (CONNECT_BUDGET + T)) ''h:443'' ''h'' [7]
      no_proc = Ret (Inr 0, p')" "p_clock p' = 576000000 + (CONNECT_BUDGET + T)"
    using sample_connect [of "CONNECT_BUDGET + T"] by blast
  with sample_net_deadlines show ?thesis
    by (metis less_add_same_cancel2 zero_less_numeral)
qed

end
