(* ===== verification/Grpc.thy ===== *)
theory Grpc
  imports Interfaces
begin

text \<open>
  gRPC length-prefix framing (\<open>src/src/grpc.rs\<close>): one flag byte, the body length as a
  big-endian \<open>u32\<close>, the body. The buffers of the \<open>bytes\<close> crate are modelled by their
  content: \<open>put_*\<close> appends, \<open>split_to\<close> and \<open>advance\<close> cut from the front.

  The lemmas: what \<open>encode_frame\<close> writes, for every length (the length is cast to 32 bits, so
  it wraps); that \<open>take_frame\<close> leaves an incomplete frame alone; and that a run of
  \<open>take_frame\<close> over concatenated frames gives the messages back (\<open>split_frames\<close>, the abstract
  decoder the stream components refine).
\<close>

section \<open>Big-endian 32-bit integers\<close>

definition to_be_bytes32 :: "u32 \<Rightarrow> bytes" where
  "to_be_bytes32 w =
     [ucast (drop_bit 24 w), ucast (drop_bit 16 w), ucast (drop_bit 8 w), ucast w]"

definition from_be_bytes32 :: "u8 \<Rightarrow> u8 \<Rightarrow> u8 \<Rightarrow> u8 \<Rightarrow> u32" where
  "from_be_bytes32 a b c d =
     (push_bit 24 (ucast a) OR push_bit 16 (ucast b) OR push_bit 8 (ucast c) OR ucast d)"

lemma from_to_be_bytes32 [simp]:
  "from_be_bytes32 (ucast (drop_bit 24 w)) (ucast (drop_bit 16 w))
     (ucast (drop_bit 8 w)) (ucast w) = w"
proof (rule bit_word_eqI)
  fix n assume n: "n < LENGTH(32)"
  consider "n < 8" | "8 \<le> n" "n < 16" | "16 \<le> n" "n < 24" | "24 \<le> n" "n < 32"
    using n by fastforce
  then show "bit (from_be_bytes32 (ucast (drop_bit 24 w)) (ucast (drop_bit 16 w))
       (ucast (drop_bit 8 w)) (ucast w)) n = bit w n"
    by cases (simp_all add: from_be_bytes32_def bit_or_iff bit_push_bit_iff bit_ucast_iff
      bit_drop_bit_eq, arith+)
qed

lemma length_to_be_bytes32 [simp]: "length (to_be_bytes32 w) = 4"
  by (simp add: to_be_bytes32_def)

section \<open>The two operations\<close>

definition encode_frame :: "bytes \<Rightarrow> bytes" where
  "encode_frame body = 0 # to_be_bytes32 (of_nat (length body)) @ body"

definition frame_len :: "bytes \<Rightarrow> nat" where
  "frame_len buf = unat (from_be_bytes32 (buf ! 1) (buf ! 2) (buf ! 3) (buf ! 4))"

definition take_frame :: "bytes \<Rightarrow> bytes option \<times> bytes" where
  "take_frame buf =
     (if length buf < 5 then (None, buf)
      else let len = frame_len buf in
        if length buf < 5 + len then (None, buf)
        else (Some (drop 5 (take (5 + len) buf)), drop (5 + len) buf))"

lemma length_encode_frame [wire_simps]: "length (encode_frame body) = 5 + length body"
  by (simp add: encode_frame_def)

lemma frame_len_encode [wire_simps]:
  "frame_len (encode_frame body @ rest) = length body mod 2 ^ 32"
  by (simp add: frame_len_def encode_frame_def to_be_bytes32_def unat_of_nat)

lemma take_frame_short [simp]: "length buf < 5 \<Longrightarrow> take_frame buf = (None, buf)"
  by (simp add: take_frame_def)

lemma take_frame_None: "take_frame buf = (None, buf') \<Longrightarrow> buf' = buf"
  by (auto simp: take_frame_def Let_def split: if_splits)

lemma take_frame_Some:
  assumes "take_frame buf = (Some body, buf')"
  shows take_frame_Some_length: "length buf = 5 + length body + length buf'"
    and take_frame_Some_eq: "buf = take 5 buf @ body @ buf'"
    and take_frame_Some_len: "length body = frame_len buf"
proof -
  let ?l = "frame_len buf"
  from assms have le: "5 + ?l \<le> length buf"
    and body: "body = drop 5 (take (5 + ?l) buf)" and buf': "buf' = drop (5 + ?l) buf"
    by (auto simp: take_frame_def Let_def split: if_splits)
  show "length body = frame_len buf" using le by (simp add: body)
  then show "length buf = 5 + length body + length buf'" using le by (simp add: buf')
  have "body @ buf' = drop 5 (take (5 + ?l) buf @ drop (5 + ?l) buf)"
    using le by (simp only: body buf' drop_append) (simp add: min_def)
  then have "body @ buf' = drop 5 buf" by (simp only: append_take_drop_id)
  then show "buf = take 5 buf @ body @ buf'" by simp
qed

lemma take_frame_shorter: "take_frame buf = (Some body, buf') \<Longrightarrow> length buf' < length buf"
  by (drule take_frame_Some_length) simp

lemma frame_len_append: "5 \<le> length buf \<Longrightarrow> frame_len (buf @ more) = frame_len buf"
  by (simp add: frame_len_def nth_append)

text \<open>Bytes that arrive later never change a frame that was already complete.\<close>

lemma take_frame_append:
  assumes "take_frame buf = (Some body, buf')"
  shows "take_frame (buf @ more) = (Some body, buf' @ more)"
  using assms by (auto simp: take_frame_def Let_def frame_len_append split: if_splits)

lemma take_frame_header:
  assumes "length h = 5"
  shows "take_frame (h @ xs) =
     (let n = frame_len (h @ xs) in
      if length xs < n then (None, h @ xs) else (Some (take n xs), drop n xs))"
  using assms by (simp add: take_frame_def Let_def)

lemma take_frame_encode:
  "take_frame (encode_frame body @ rest) =
     (let n = length body mod 2 ^ 32 in (Some (take n body), drop n body @ rest))"
proof -
  let ?n = "length body mod 2 ^ 32" and ?h = "0 # to_be_bytes32 (of_nat (length body))"
  have eq: "encode_frame body @ rest = ?h @ body @ rest" by (simp add: encode_frame_def)
  have n: "frame_len (?h @ body @ rest) = ?n" using frame_len_encode [of body rest] eq by simp
  have "length ?h = 5" by simp
  from take_frame_header [OF this, of "body @ rest"] show ?thesis
    unfolding eq n Let_def by (simp add: trans_le_add1)
qed

lemma frame_prefix_waits:
  assumes "length body < 2 ^ 32" and "k < 5 + length body"
  shows "take_frame (take k (encode_frame body)) = (None, take k (encode_frame body))"
proof (cases "take_frame (take k (encode_frame body))")
  case (Pair m buf')
  let ?p = "take k (encode_frame body)" and ?q = "drop k (encode_frame body)"
  show ?thesis
  proof (cases m)
    case None
    with Pair show ?thesis using take_frame_None by simp
  next
    case (Some m')
    with Pair have "take_frame ?p = (Some m', buf')" by simp
    from take_frame_append [OF this, of ?q]
    have "take_frame (encode_frame body) = (Some m', buf' @ ?q)" by simp
    with take_frame_encode [of body "[]"] assms(1) have "?q = []" by simp
    with assms(2) show ?thesis by (simp add: wire_simps)
  qed
qed

section \<open>Splitting a buffer into messages\<close>

function split_frames :: "bytes \<Rightarrow> bytes list \<times> bytes" where
  "split_frames buf =
     (case take_frame buf of
        (None, buf') \<Rightarrow> ([], buf')
      | (Some m, buf') \<Rightarrow> (let (ms, r) = split_frames buf' in (m # ms, r)))"
  by pat_completeness auto
termination
  by (relation "measure length") (auto dest!: sym [of _ "take_frame _"] take_frame_shorter)

declare split_frames.simps [simp del]

lemma split_frames_step:
  "take_frame buf = (Some m, buf') \<Longrightarrow>
     split_frames buf = (m # fst (split_frames buf'), snd (split_frames buf'))"
  by (subst split_frames.simps) (simp add: case_prod_beta)

lemma split_frames_stop: "take_frame buf = (None, buf') \<Longrightarrow> split_frames buf = ([], buf)"
  using take_frame_None [of buf buf'] by (subst split_frames.simps) simp

lemma split_frames_append:
  "split_frames (a @ b) =
     (fst (split_frames a) @ fst (split_frames (snd (split_frames a) @ b)),
      snd (split_frames (snd (split_frames a) @ b)))"
proof (induction a rule: split_frames.induct)
  case (1 a)
  show ?case
  proof (cases "take_frame a")
    case (Pair m a')
    show ?thesis
    proof (cases m)
      case None
      with Pair have "split_frames a = ([], a)" by (simp add: split_frames_stop)
      then show ?thesis by simp
    next
      case (Some m')
      with Pair have t: "take_frame a = (Some m', a')" by simp
      from "1.IH" [OF t [symmetric] refl] show ?thesis
        by (simp add: split_frames_step [OF t] split_frames_step [OF take_frame_append [OF t]])
    qed
  qed
qed

lemma split_frames_remainder: "split_frames (snd (split_frames a)) = ([], snd (split_frames a))"
proof (induction a rule: split_frames.induct)
  case (1 a)
  then show ?case
    by (cases "take_frame a"; cases "fst (take_frame a)")
       (auto simp: split_frames_step dest: split_frames_stop)
qed

lemma split_frames_encode:
  "list_all (\<lambda>m. length m < 2 ^ 32) ms \<Longrightarrow>
     split_frames (concat (map encode_frame ms) @ rest) =
       (ms @ fst (split_frames rest), snd (split_frames rest))"
proof (induction ms)
  case (Cons m ms)
  then have "take_frame (encode_frame m @ concat (map encode_frame ms) @ rest) =
      (Some m, concat (map encode_frame ms) @ rest)"
    by (simp add: take_frame_encode)
  from split_frames_step [OF this] Cons show ?case by simp
qed simp

section \<open>Properties\<close>

text \<open>
  C24: Whatever the length of a message, the receiver cuts it out of the stream at
  \<open>length mod 2 ^ 32\<close> bytes: \<open>encode_frame\<close> casts the length to \<open>u32\<close>. Below 4 GiB the frame
  comes back whole and the bytes behind it are untouched; from 4 GiB on the header is a
  smaller number, the message is cut and its tail is left where the next frame header is
  expected.
\<close>

theorem frame_round_trip:
  "take_frame (encode_frame body @ rest) =
     (if length body < 2 ^ 32 then (Some body, rest)
      else let n = length body mod 2 ^ 32 in (Some (take n body), drop n body @ rest))"
  by (simp add: take_frame_encode)

text \<open>
  A frame of which any byte is still missing is never delivered, and its bytes stay in
  the buffer for the next read.
\<close>

theorem take_frame_waits:
  assumes "length body < 2 ^ 32" and "k < 5 + length body"
  shows "take_frame (take k (encode_frame body)) = (None, take k (encode_frame body))"
  using assms by (rule frame_prefix_waits)

theorem take_frame_waits_witness:
  "take_frame (take 6 (encode_frame [7, 8])) = (None, take 6 (encode_frame [7, 8]))"
  using take_frame_waits [of "[7, 8]" 6] by simp

end
