(* ===== verification/Client_Stream.thy ===== *)
theory Client_Stream
  imports Client_State Grpc
begin

text \<open>
  gRPC calls over HTTP/3 (\<open>open_stream\<close>, \<open>QuicStream\<close>, \<open>QuicSendStream\<close>, \<open>QuicRecvStream\<close> in
  \<open>src/src/client.rs\<close>).

  An h3 stream is what it will answer to reads, and to writes, and what was written to it. An awaited
  read with no answer is \<open>Pending\<close>: the caller sees nothing, but the chunks taken before stay in the
  receive buffer, where a later call finds them.

  The whole stream and its receive half have the same receiving operations; what both rely on is the
  locale \<open>message_source\<close>, and its lemmas say what a sequence of receives returns, in terms of
  \<open>split_frames\<close> of \<open>Grpc\<close>, the decoder that sees all bytes at once.
\<close>

section \<open>h3 streams\<close>

datatype h3_read = Chunk bytes | End_of_data | Read_error anyhow

datatype h3_write = Headers u16 "(string \<times> bytes) list" | Data bytes | Trailers "(string \<times> bytes) list" | Fin

text \<open>\<open>hw_answers\<close>: the answers to the next writes, \<open>None\<close> for success; an exhausted list is success.\<close>

record h3_send =
  hw_answers :: "anyhow option list"
  hw_written :: "h3_write list"

record h3_recv =
  hr_head :: "anyhow + u16"
  hr_reads :: "h3_read list"
  hr_tail :: "anyhow + (string \<times> bytes) list option"

definition h3_write :: "h3_write \<Rightarrow> h3_send \<Rightarrow> (anyhow + unit) \<times> h3_send" where
  "h3_write x s =
     (case hw_answers s of
        [] \<Rightarrow> (Inr (), s\<lparr>hw_written := hw_written s @ [x]\<rparr>)
      | None # as \<Rightarrow> (Inr (), s\<lparr>hw_answers := as, hw_written := hw_written s @ [x]\<rparr>)
      | Some e # as \<Rightarrow> (Inl e, s\<lparr>hw_answers := as\<rparr>))"

lemma h3_write_result:
  "h3_write x s = (r, s') \<Longrightarrow>
     hw_written s' = hw_written s @ (case r of Inr _ \<Rightarrow> [x] | Inl _ \<Rightarrow> [])"
  by (auto simp: h3_write_def split: list.splits option.splits)

definition with_context :: "string \<Rightarrow> anyhow + 'a \<Rightarrow> anyhow + 'a" where
  "with_context msg r = (case r of Inl e \<Rightarrow> Inl (context_of msg e) | Inr x \<Rightarrow> Inr x)"

section \<open>Requests\<close>

record request =
  rq_method :: string
  rq_uri :: string
  rq_headers :: "(string \<times> string) list"

text \<open>
  What the \<open>http\<close> crate accepts as a URI, a header name and a header value; the builder keeps the
  first error until \<open>body\<close>.
\<close>

record http_checks =
  hc_uri :: "string \<Rightarrow> anyhow option"
  hc_header :: "string \<Rightarrow> string \<Rightarrow> anyhow option"

definition request_builder :: "http_checks \<Rightarrow> string \<Rightarrow> string \<Rightarrow> anyhow + request" where
  "request_builder ck rmethod uri =
     (case hc_uri ck uri of
        Some e \<Rightarrow> Inl e
      | None \<Rightarrow> Inr \<lparr>rq_method = rmethod, rq_uri = uri, rq_headers = []\<rparr>)"

definition builder_header :: "http_checks \<Rightarrow> string \<Rightarrow> string \<Rightarrow> anyhow + request \<Rightarrow> anyhow + request" where
  "builder_header ck key val b =
     (case b of
        Inl e \<Rightarrow> Inl e
      | Inr r \<Rightarrow>
          (case hc_header ck key val of
             Some e \<Rightarrow> Inl e
           | None \<Rightarrow> Inr (r\<lparr>rq_headers := rq_headers r @ [(key, val)]\<rparr>)))"

fun builder_headers ::
  "http_checks \<Rightarrow> (string \<times> string) list \<Rightarrow> anyhow + request \<Rightarrow> anyhow + request" where
  "builder_headers ck [] b = b"
| "builder_headers ck ((key, val) # metadata) b =
     builder_headers ck metadata (builder_header ck key val b)"

section \<open>Calls\<close>

record quic_stream =
  qs_send :: h3_send
  qs_recv :: h3_recv
  qs_recv_buf :: bytes

record quic_send_stream =
  ss_inner :: h3_send

record quic_recv_stream =
  rs_inner :: h3_recv
  rs_recv_buf :: bytes

text \<open>\<open>send_request\<close> is what h3 answers to the request: an error, or the two sides of the stream.\<close>

definition open_stream ::
  "http_checks \<Rightarrow> (request \<Rightarrow> anyhow + h3_send \<times> h3_recv) \<Rightarrow> quic_client \<Rightarrow> string \<Rightarrow> (string \<times> string) list
     \<Rightarrow> anyhow + quic_stream" where
  "open_stream ck send_request c path metadata =
     (let b1 = request_builder ck ''POST'' (''https://'' @ qc_authority c @ path);
          b2 = builder_header ck ''content-type'' ''application/grpc+proto'' b1;
          b3 = builder_header ck ''te'' ''trailers'' b2;
          b4 = builder_headers ck metadata b3
      in case with_context ''build request'' b4 of
           Inl e \<Rightarrow> Inl e
         | Inr req \<Rightarrow>
             (case with_context ''open h3 request'' (send_request req) of
                Inl e \<Rightarrow> Inl e
              | Inr (s, r) \<Rightarrow> Inr \<lparr>qs_send = s, qs_recv = r, qs_recv_buf = []\<rparr>))"

section \<open>Sending\<close>

definition stream_send_message :: "bytes \<Rightarrow> quic_stream \<Rightarrow> (anyhow + unit) \<times> quic_stream" where
  "stream_send_message message qs =
     (let (r, s) = h3_write (Data (encode_frame message)) (qs_send qs)
      in (with_context ''send_data'' r, qs\<lparr>qs_send := s\<rparr>))"

definition stream_finish :: "quic_stream \<Rightarrow> (anyhow + unit) \<times> quic_stream" where
  "stream_finish qs =
     (let (r, s) = h3_write Fin (qs_send qs) in (with_context ''finish'' r, qs\<lparr>qs_send := s\<rparr>))"

definition half_send_message :: "bytes \<Rightarrow> quic_send_stream \<Rightarrow> (anyhow + unit) \<times> quic_send_stream" where
  "half_send_message message ss =
     (let (r, s) = h3_write (Data (encode_frame message)) (ss_inner ss)
      in (with_context ''send_data'' r, ss\<lparr>ss_inner := s\<rparr>))"

definition half_finish :: "quic_send_stream \<Rightarrow> (anyhow + unit) \<times> quic_send_stream" where
  "half_finish ss =
     (let (r, s) = h3_write Fin (ss_inner ss) in (with_context ''finish'' r, ss\<lparr>ss_inner := s\<rparr>))"

section \<open>Receiving\<close>

definition stream_recv_response :: "quic_stream \<Rightarrow> anyhow + u16" where
  "stream_recv_response qs = with_context ''recv_response'' (hr_head (qs_recv qs))"

definition half_recv_response :: "quic_recv_stream \<Rightarrow> anyhow + u16" where
  "half_recv_response rs = with_context ''recv_response'' (hr_head (rs_inner rs))"

text \<open>The loop of \<open>recv_message\<close>: the answers still to come and the buffer.\<close>

function recv_loop ::
  "h3_read list \<Rightarrow> bytes \<Rightarrow> (anyhow + bytes option) poll \<times> h3_read list \<times> bytes" where
  "recv_loop reads buf =
     (case take_frame buf of
        (Some frame, buf') \<Rightarrow> (Ready (Inr (Some frame)), reads, buf')
      | (None, buf') \<Rightarrow>
          (case reads of
             [] \<Rightarrow> (Pending, [], buf')
           | Read_error e # rs \<Rightarrow> (Ready (Inl (context_of ''recv_data'' e)), rs, buf')
           | Chunk bytes # rs \<Rightarrow> recv_loop rs (buf' @ bytes)
           | End_of_data # rs \<Rightarrow> (Ready (Inr None), rs, buf')))"
  by pat_completeness auto
termination
  by (relation "measure (\<lambda>(reads, buf). length reads)") auto

declare recv_loop.simps [simp del]

definition stream_recv_message :: "quic_stream \<Rightarrow> (anyhow + bytes option) poll \<times> quic_stream" where
  "stream_recv_message qs =
     (let (r, reads, buf) = recv_loop (hr_reads (qs_recv qs)) (qs_recv_buf qs)
      in (r, qs\<lparr>qs_recv := (qs_recv qs)\<lparr>hr_reads := reads\<rparr>, qs_recv_buf := buf\<rparr>))"

definition half_recv_message :: "quic_recv_stream \<Rightarrow> (anyhow + bytes option) poll \<times> quic_recv_stream" where
  "half_recv_message rs =
     (let (r, reads, buf) = recv_loop (hr_reads (rs_inner rs)) (rs_recv_buf rs)
      in (r, rs\<lparr>rs_inner := (rs_inner rs)\<lparr>hr_reads := reads\<rparr>, rs_recv_buf := buf\<rparr>))"

text \<open>\<open>to_str\<close> is the one of \<open>HeaderValue\<close>: it refuses values that are not visible ASCII.\<close>

definition readable_trailers ::
  "(bytes \<Rightarrow> string option) \<Rightarrow> (string \<times> bytes) list option \<Rightarrow> (string \<times> string) list" where
  "readable_trailers to_str trailers =
     (case trailers of
        None \<Rightarrow> []
      | Some headers \<Rightarrow> List.map_filter (\<lambda>(k, v). map_option (\<lambda>v. (k, v)) (to_str v)) headers)"

definition stream_recv_trailers ::
  "(bytes \<Rightarrow> string option) \<Rightarrow> quic_stream \<Rightarrow> anyhow + (string \<times> string) list" where
  "stream_recv_trailers to_str qs =
     map_sum id (readable_trailers to_str) (with_context ''recv_trailers'' (hr_tail (qs_recv qs)))"

definition half_recv_trailers ::
  "(bytes \<Rightarrow> string option) \<Rightarrow> quic_recv_stream \<Rightarrow> anyhow + (string \<times> string) list" where
  "half_recv_trailers to_str rs =
     map_sum id (readable_trailers to_str) (with_context ''recv_trailers'' (hr_tail (rs_inner rs)))"

definition stream_split :: "quic_stream \<Rightarrow> quic_send_stream \<times> quic_recv_stream" where
  "stream_split qs =
     (\<lparr>ss_inner = qs_send qs\<rparr>, \<lparr>rs_inner = qs_recv qs, rs_recv_buf = qs_recv_buf qs\<rparr>)"

section \<open>What a sequence of receives returns\<close>

primrec receives :: "('s \<Rightarrow> 'r \<times> 's) \<Rightarrow> nat \<Rightarrow> 's \<Rightarrow> 'r list \<times> 's" where
  "receives recv 0 s = ([], s)"
| "receives recv (Suc n) s =
     (let (r, s1) = recv s; (rs, s2) = receives recv n s1 in (r # rs, s2))"

text \<open>How a receive ends when no chunk and no whole frame is left.\<close>

fun ending :: "h3_read list \<Rightarrow> (anyhow + bytes option) poll \<times> h3_read list" where
  "ending [] = (Pending, [])"
| "ending (End_of_data # rs) = (Ready (Inr None), rs)"
| "ending (Read_error e # rs) = (Ready (Inl (context_of ''recv_data'' e)), rs)"
| "ending (Chunk b # rs) = (Pending, Chunk b # rs)"

fun no_chunk :: "h3_read list \<Rightarrow> bool" where
  "no_chunk (Chunk b # rs) = False"
| "no_chunk _ = True"

lemma recv_loop_frame:
  "take_frame buf = (Some m, buf') \<Longrightarrow> recv_loop reads buf = (Ready (Inr (Some m)), reads, buf')"
  by (simp add: recv_loop.simps)

lemma recv_loop_chunk:
  "take_frame buf = (None, buf') \<Longrightarrow> recv_loop (Chunk b # reads) buf = recv_loop reads (buf @ b)"
  using take_frame_None [of buf buf'] by (simp add: recv_loop.simps [of "Chunk b # reads"])

lemma recv_loop_ending:
  "take_frame buf = (None, buf') \<Longrightarrow> no_chunk reads \<Longrightarrow>
     recv_loop reads buf = (fst (ending reads), snd (ending reads), buf)"
  using take_frame_None [of buf buf']
  by (cases reads rule: ending.cases) (simp_all add: recv_loop.simps [of "[]"] recv_loop.simps [of "_ # _"])

lemma recv_loop_spec:
  assumes "no_chunk rest" and "split_frames (buf @ concat cs) = (ms, r)"
  shows "case ms of
      [] \<Rightarrow> recv_loop (map Chunk cs @ rest) buf = (fst (ending rest), snd (ending rest), r)
    | m # ms' \<Rightarrow> (\<exists>cs' buf'. recv_loop (map Chunk cs @ rest) buf
          = (Ready (Inr (Some m)), map Chunk cs' @ rest, buf')
        \<and> split_frames (buf' @ concat cs') = (ms', r))"
  using assms(2)
proof (induction cs arbitrary: buf)
  case Nil
  show ?case
  proof (cases "take_frame buf")
    case (Pair m buf')
    then show ?thesis
    proof (cases m)
      case None
      with Pair Nil split_frames_stop [of buf buf'] show ?thesis
        by (auto simp: recv_loop_ending [OF _ assms(1)])
    next
      case (Some m')
      with Pair have t: "take_frame buf = (Some m', buf')"
        by simp
      with Nil split_frames_step [OF t] show ?thesis
        by (auto simp: recv_loop_frame [OF t] intro!: exI [of _ "[]"])
    qed
  qed
next
  case (Cons c cs)
  show ?case
  proof (cases "take_frame buf")
    case (Pair m buf')
    then show ?thesis
    proof (cases m)
      case None
      with Pair have t: "take_frame buf = (None, buf')"
        by simp
      then have "recv_loop (map Chunk (c # cs) @ rest) buf = recv_loop (map Chunk cs @ rest) (buf @ c)"
        by (simp add: recv_loop_chunk)
      with Cons.IH [of "buf @ c"] Cons.prems show ?thesis
        by (simp only: concat.simps append_assoc)
    next
      case (Some m')
      with Pair have t: "take_frame buf = (Some m', buf')"
        by simp
      from split_frames_step [OF take_frame_append [OF t, of "concat (c # cs)"]] Cons.prems show ?thesis
        by (auto simp: recv_loop_frame [OF t] intro!: exI [of _ "c # cs"])
    qed
  qed
qed

text \<open>
  The interface of a receiving side: the operation, and what is ahead of it (the reads to come and the
  bytes buffered). The law is that the operation is the loop on what is ahead.
\<close>

locale message_source =
  fixes recv :: "'s \<Rightarrow> (anyhow + bytes option) poll \<times> 's"
    and ahead :: "'s \<Rightarrow> h3_read list \<times> bytes"
  assumes recv_result: "fst (recv s) = fst (recv_loop (fst (ahead s)) (snd (ahead s)))"
    and recv_ahead: "ahead (snd (recv s)) = snd (recv_loop (fst (ahead s)) (snd (ahead s)))"
begin

lemma receives_messages:
  assumes "ahead s = (map Chunk cs @ rest, buf)" and "no_chunk rest"
    and "split_frames (buf @ concat cs) = (ms, r)"
  shows "fst (receives recv (Suc (length ms)) s) = map (\<lambda>m. Ready (Inr (Some m))) ms @ [fst (ending rest)]
    \<and> ahead (snd (receives recv (Suc (length ms)) s)) = (snd (ending rest), r)"
  using assms(1,3)
proof (induction ms arbitrary: s cs buf)
  case Nil
  from recv_loop_spec [OF assms(2) Nil(2)] Nil(1) show ?case
    using recv_result [of s] recv_ahead [of s] by (simp add: case_prod_beta)
next
  case (Cons m ms)
  from recv_loop_spec [OF assms(2) Cons.prems(2)] obtain cs' buf' where
    loop: "recv_loop (map Chunk cs @ rest) buf = (Ready (Inr (Some m)), map Chunk cs' @ rest, buf')"
    and left: "split_frames (buf' @ concat cs') = (ms, r)"
    by auto
  have "ahead (snd (recv s)) = (map Chunk cs' @ rest, buf')" "fst (recv s) = Ready (Inr (Some m))"
    using recv_result [of s] recv_ahead [of s] Cons.prems(1) loop by simp_all
  with Cons.IH [OF _ left, of "snd (recv s)"] show ?case
    by (simp add: case_prod_beta)
qed

lemma receives_sent:
  assumes "ahead s = (map Chunk cs @ End_of_data # later, [])" and "list_all (\<lambda>m. length m < 2 ^ 32) ms"
    and "concat cs = concat (map encode_frame ms)"
  shows "fst (receives recv (Suc (length ms)) s) = map (\<lambda>m. Ready (Inr (Some m))) ms @ [Ready (Inr None)]
    \<and> ahead (snd (receives recv (Suc (length ms)) s)) = (later, [])"
proof -
  have "split_frames ([] @ concat cs) = (ms, [])"
    using split_frames_encode [OF assms(2), of "[]"] assms(3)
    by (simp add: split_frames_stop [OF take_frame_short])
  from receives_messages [OF assms(1) _ this] show ?thesis
    by simp
qed

end

definition stream_ahead :: "quic_stream \<Rightarrow> h3_read list \<times> bytes" where
  "stream_ahead qs = (hr_reads (qs_recv qs), qs_recv_buf qs)"

definition half_ahead :: "quic_recv_stream \<Rightarrow> h3_read list \<times> bytes" where
  "half_ahead rs = (hr_reads (rs_inner rs), rs_recv_buf rs)"

interpretation whole: message_source stream_recv_message stream_ahead
  by unfold_locales (simp_all add: stream_recv_message_def stream_ahead_def case_prod_beta Let_def)

interpretation half: message_source half_recv_message half_ahead
  by unfold_locales (simp_all add: half_recv_message_def half_ahead_def case_prod_beta Let_def)

section \<open>Properties\<close>

text \<open>
  C16: However the network cuts the bytes of a call into chunks, and on the whole stream as on its
  receive half, receiving returns exactly the messages of the byte stream, in order, and then what the
  stream ends with: nothing yet, the end, or an error.
\<close>

theorem chunking_does_not_matter:
  assumes "no_chunk rest" and "split_frames (buf @ concat cs) = (ms, r)"
    and "stream_ahead qs = (map Chunk cs @ rest, buf)" and "half_ahead rs = (map Chunk cs @ rest, buf)"
  shows "fst (receives stream_recv_message (Suc (length ms)) qs)
      = map (\<lambda>m. Ready (Inr (Some m))) ms @ [fst (ending rest)]
    \<and> fst (receives half_recv_message (Suc (length ms)) rs)
      = map (\<lambda>m. Ready (Inr (Some m))) ms @ [fst (ending rest)]
    \<and> half_ahead (snd (receives half_recv_message (Suc (length ms)) rs)) = (snd (ending rest), r)"
  using whole.receives_messages [OF assms(3,1,2)] half.receives_messages [OF assms(4,1,2)] by simp

definition sample_recv :: "h3_read list \<Rightarrow> h3_recv" where
  "sample_recv reads = \<lparr>hr_head = Inr 200, hr_reads = reads, hr_tail = Inr None\<rparr>"

definition sample_stream :: "h3_read list \<Rightarrow> quic_stream" where
  "sample_stream reads =
     \<lparr>qs_send = \<lparr>hw_answers = [], hw_written = []\<rparr>, qs_recv = sample_recv reads, qs_recv_buf = []\<rparr>"

definition sample_half :: "h3_read list \<Rightarrow> quic_recv_stream" where
  "sample_half reads = \<lparr>rs_inner = sample_recv reads, rs_recv_buf = []\<rparr>"

lemma sample_ahead [simp]:
  "stream_ahead (sample_stream reads) = (reads, [])" "half_ahead (sample_half reads) = (reads, [])"
  by (simp_all add: stream_ahead_def half_ahead_def sample_stream_def sample_half_def sample_recv_def)

theorem chunking_does_not_matter_witness:
  "fst (receives half_recv_message 2 (sample_half [Chunk [0, 0, 0], Chunk [0, 1, 7, 0], End_of_data]))
     = [Ready (Inr (Some [7])), Ready (Inr None)]"
proof -
  have "take_frame [0, 0, 0, 0, 1, 7, 0] = (Some [7], [0])"
    by (simp add: take_frame_def frame_len_def from_be_bytes32_def)
  then have split: "split_frames ([] @ concat [[0, 0, 0], [0, 1, 7, 0]]) = ([[7]], [0])"
    by (simp add: split_frames_step split_frames_stop [OF take_frame_short])
  from chunking_does_not_matter [OF _ split, of "[End_of_data]"
    "sample_stream [Chunk [0, 0, 0], Chunk [0, 1, 7, 0], End_of_data]"
    "sample_half [Chunk [0, 0, 0], Chunk [0, 1, 7, 0], End_of_data]"]
  show ?thesis
    by (simp add: numeral_2_eq_2)
qed

primrec send_all :: "bytes list \<Rightarrow> quic_send_stream \<Rightarrow> quic_send_stream" where
  "send_all [] ss = ss"
| "send_all (m # ms) ss = send_all ms (snd (half_send_message m ss))"

fun payload :: "h3_write \<Rightarrow> bytes" where
  "payload (Data b) = b"
| "payload _ = []"

lemma send_all_writes:
  "hw_answers (ss_inner ss) = [] \<Longrightarrow>
     hw_written (ss_inner (send_all ms ss)) = hw_written (ss_inner ss) @ map (Data \<circ> encode_frame) ms"
  by (induction ms arbitrary: ss) (simp_all add: half_send_message_def h3_write_def Let_def)

lemma payload_of_frames: "concat (map payload (map (Data \<circ> encode_frame) ms)) = concat (map encode_frame ms)"
  by (induction ms) simp_all

text \<open>
  C5: End to end. What the send half writes for a sequence of messages below 4 GiB, on a stream that
  takes every write, is what the receiving half at the other end returns, message by message and then
  the end of the stream, with nothing left in its buffer; however the bytes were cut into chunks.
\<close>

theorem messages_arrive_as_sent:
  assumes "hw_answers (ss_inner ss) = []" and "hw_written (ss_inner ss) = []"
    and "list_all (\<lambda>m. length m < 2 ^ 32) ms"
    and "concat cs = concat (map payload (hw_written (ss_inner (send_all ms ss))))"
    and "half_ahead rs = (map Chunk cs @ End_of_data # later, [])"
  shows "fst (receives half_recv_message (Suc (length ms)) rs)
      = map (\<lambda>m. Ready (Inr (Some m))) ms @ [Ready (Inr None)]
    \<and> half_ahead (snd (receives half_recv_message (Suc (length ms)) rs)) = (later, [])"
proof -
  have "concat cs = concat (map encode_frame ms)"
    unfolding assms(4) send_all_writes [OF assms(1)] assms(2) append_Nil by (rule payload_of_frames)
  from half.receives_sent [OF assms(5,3) this] show ?thesis .
qed

theorem messages_arrive_as_sent_witness:
  "fst (receives half_recv_message 3
      (sample_half (map Chunk (map (\<lambda>b. [b]) (encode_frame [1, 2] @ encode_frame [])) @ [End_of_data])))
     = [Ready (Inr (Some [1, 2])), Ready (Inr (Some [])), Ready (Inr None)]"
proof -
  let ?ss = "\<lparr>ss_inner = \<lparr>hw_answers = [], hw_written = []\<rparr>\<rparr>" and ?ms = "[[1, 2], []] :: bytes list"
  let ?cs = "map (\<lambda>b. [b]) (encode_frame [1, 2] @ encode_frame [])"
  have "concat (map (\<lambda>b. [b]) bs) = (bs :: bytes)" for bs
    by (induction bs) simp_all
  then have "concat ?cs = concat (map payload (hw_written (ss_inner (send_all ?ms ?ss))))"
    using send_all_writes [of ?ss ?ms] by simp
  from messages_arrive_as_sent [OF _ _ _ this, of "sample_half (map Chunk ?cs @ [End_of_data])" "[]"]
  show ?thesis
    by (simp add: numeral_3_eq_3)
qed

lemma recv_loop_resumes:
  "recv_loop reads buf = (Pending, reads', buf') \<Longrightarrow>
     reads' = [] \<and> recv_loop later buf' = recv_loop (reads @ later) buf"
proof (induction reads buf rule: recv_loop.induct)
  case (1 reads buf)
  show ?case
  proof (cases "take_frame buf")
    case (Pair m b)
    show ?thesis
    proof (cases m)
      case None
      with Pair have t: "take_frame buf = (None, b)"
        by simp
      with take_frame_None have b: "b = buf"
        by blast
      show ?thesis
      proof (cases reads)
        case Nil
        with "1.prems" t b show ?thesis
          by (simp add: recv_loop.simps [of "[]"])
      next
        case (Cons x rs)
        with "1.prems" "1.IH" [OF t [symmetric] refl Cons] t b show ?thesis
          by (cases x) (simp_all add: recv_loop_chunk [OF t] recv_loop.simps [of "End_of_data # _"]
              recv_loop.simps [of "Read_error _ # _"])
      qed
    next
      case (Some m')
      with Pair "1.prems" show ?thesis
        by (simp add: recv_loop_frame)
    qed
  qed
qed

text \<open>
  C29: A receive that is given up while it waits loses nothing: called again, it returns what it would
  have returned if the later chunks had been there in the first place.
\<close>

theorem a_cancelled_receive_loses_nothing:
  assumes "half_recv_message rs = (Pending, rs')"
  shows "half_recv_message (rs'\<lparr>rs_inner := (rs_inner rs')\<lparr>hr_reads := later\<rparr>\<rparr>)
    = half_recv_message (rs\<lparr>rs_inner := (rs_inner rs)\<lparr>hr_reads := hr_reads (rs_inner rs) @ later\<rparr>\<rparr>)"
proof -
  obtain reads' buf' where loop: "recv_loop (hr_reads (rs_inner rs)) (rs_recv_buf rs) = (Pending, reads', buf')"
    and rs': "rs' = rs\<lparr>rs_inner := (rs_inner rs)\<lparr>hr_reads := reads'\<rparr>, rs_recv_buf := buf'\<rparr>"
    using assms by (auto simp: half_recv_message_def Let_def split: prod.splits)
  from recv_loop_resumes [OF loop, of later] show ?thesis
    by (simp add: half_recv_message_def Let_def rs' case_prod_beta)
qed

theorem a_cancelled_receive_loses_nothing_witness:
  "half_recv_message (\<lparr>rs_inner = sample_recv [Chunk [1, 7], End_of_data], rs_recv_buf = [0, 0, 0, 0]\<rparr>)
     = half_recv_message (sample_half [Chunk [0, 0, 0, 0], Chunk [1, 7], End_of_data])"
proof -
  have "half_recv_message (sample_half [Chunk [0, 0, 0, 0]])
      = (Pending, \<lparr>rs_inner = sample_recv [], rs_recv_buf = [0, 0, 0, 0]\<rparr>)"
    by (simp add: half_recv_message_def sample_half_def sample_recv_def recv_loop.simps)
  from a_cancelled_receive_loses_nothing [OF this, of "[Chunk [1, 7], End_of_data]"] show ?thesis
    by (simp add: sample_half_def sample_recv_def)
qed

text \<open>
  A message cut off by the end of the stream is not an error: when only a proper part of a frame
  arrived, the receiver reports a clean end and keeps the part in its buffer.
\<close>

theorem a_truncated_message_ends_cleanly:
  assumes "length m < 2 ^ 32" and "k < 5 + length m" and "concat cs = take k (encode_frame m)"
    and "half_ahead rs = (map Chunk cs @ End_of_data # later, [])"
  shows "fst (half_recv_message rs) = Ready (Inr None)
    \<and> half_ahead (snd (half_recv_message rs)) = (later, take k (encode_frame m))"
proof -
  have "take_frame (take k (encode_frame m)) = (None, take k (encode_frame m))"
    using frame_prefix_waits [OF assms(1,2)] .
  then have "split_frames ([] @ concat cs) = ([], take k (encode_frame m))"
    using assms(3) by (simp add: split_frames_stop)
  from half.receives_messages [OF assms(4) _ this] show ?thesis
    by (simp add: case_prod_beta)
qed

theorem a_truncated_message_ends_cleanly_witness:
  "fst (half_recv_message (sample_half [Chunk (take 6 (encode_frame [7, 8])), End_of_data])) = Ready (Inr None)"
  using a_truncated_message_ends_cleanly [of "[7, 8]" 6 "[take 6 (encode_frame [7, 8])]"
      "sample_half [Chunk (take 6 (encode_frame [7, 8])), End_of_data]" "[]"]
  by simp

text \<open>
  Opening a call sends exactly one request, a POST of the path at the client's authority with the
  two gRPC headers and then the metadata in order; it is not sent when the URI or a header is refused,
  and the first refusal is the error.
\<close>

lemma builder_headers_eq:
  "builder_headers ck md b =
     (case b of
        Inl e \<Rightarrow> Inl e
      | Inr r \<Rightarrow> (case List.map_filter (\<lambda>(k, v). hc_header ck k v) md of
          [] \<Rightarrow> Inr (r\<lparr>rq_headers := rq_headers r @ md\<rparr>)
        | e # es \<Rightarrow> Inl e))"
proof (induction md arbitrary: b)
  case Nil
  show ?case
    by (cases b) (simp_all add: map_filter_simps)
next
  case (Cons h md)
  obtain k v where h: "h = (k, v)"
    by fastforce
  show ?case
  proof (cases b)
    case (Inr r)
    with Cons h show ?thesis
      by (cases "hc_header ck k v") (simp_all add: builder_header_def map_filter_simps split: list.split)
  qed (simp add: Cons h builder_header_def)
qed

theorem open_stream_sends_the_grpc_request:
  "open_stream ck send_request c path metadata =
     (let uri = ''https://'' @ qc_authority c @ path;
          headers = [(''content-type'', ''application/grpc+proto''), (''te'', ''trailers'')] @ metadata;
          refused = List.map_filter (\<lambda>(k, v). hc_header ck k v) headers
      in case hc_uri ck uri of
           Some e \<Rightarrow> Inl (context_of ''build request'' e)
         | None \<Rightarrow>
             (case refused of
                e # es \<Rightarrow> Inl (context_of ''build request'' e)
              | [] \<Rightarrow>
                  (case send_request \<lparr>rq_method = ''POST'', rq_uri = uri, rq_headers = headers\<rparr> of
                     Inl e \<Rightarrow> Inl (context_of ''open h3 request'' e)
                   | Inr (s, r) \<Rightarrow> Inr \<lparr>qs_send = s, qs_recv = r, qs_recv_buf = []\<rparr>)))"
proof -
  let ?ct = "(''content-type'', ''application/grpc+proto'')" and ?te = "(''te'', ''trailers'')"
  have chain: "builder_headers ck metadata (builder_header ck ''te'' ''trailers''
      (builder_header ck ''content-type'' ''application/grpc+proto'' b)) = builder_headers ck (?ct # ?te # metadata) b" for b
    by simp
  show ?thesis
    unfolding open_stream_def Let_def chain
    unfolding builder_headers_eq request_builder_def with_context_def
    by (cases "hc_uri ck (''https://'' @ qc_authority c @ path)")
      (simp_all split: list.split sum.split)
qed

text \<open>
  Splitting a call loses nothing: on the two halves every operation does what it does on the whole
  stream, and bytes that were buffered before the split are delivered after it.
\<close>

theorem split_halves_simulate_the_stream:
  "half_recv_message (snd (stream_split qs))
       = (fst (stream_recv_message qs), snd (stream_split (snd (stream_recv_message qs))))
   \<and> half_send_message m (fst (stream_split qs))
       = (fst (stream_send_message m qs), fst (stream_split (snd (stream_send_message m qs))))
   \<and> half_finish (fst (stream_split qs)) = (fst (stream_finish qs), fst (stream_split (snd (stream_finish qs))))
   \<and> half_recv_response (snd (stream_split qs)) = stream_recv_response qs
   \<and> half_recv_trailers to_str (snd (stream_split qs)) = stream_recv_trailers to_str qs
   \<and> snd (stream_split (snd (stream_send_message m qs))) = snd (stream_split qs)
   \<and> fst (stream_split (snd (stream_recv_message qs))) = fst (stream_split qs)"
  by (simp add: stream_split_def half_recv_message_def stream_recv_message_def half_send_message_def
      stream_send_message_def half_finish_def stream_finish_def half_recv_response_def
      stream_recv_response_def half_recv_trailers_def stream_recv_trailers_def Let_def case_prod_beta)

end
