(* ===== verification/Server_Endpoint.thy ===== *)
theory Server_Endpoint
  imports Client_State
begin

text \<open>
  Server endpoints, as \<open>src/src/echo_server.rs\<close> and \<open>src/src/proxy.rs\<close> get them: quinn's own
  \<open>Endpoint::server\<close>, or the obfuscated endpoint of \<open>src/src/obf_socket.rs\<close>. An endpoint is the
  configuration and the address it was made with, and the socket it runs on; what the kernel, the
  runtime and quinn answer is the record \<open>server_net\<close>.
\<close>

datatype endpoint_socket = Quinn_socket | Own_socket client_sock

record 'cfg server_endpoint =
  se_config :: "'cfg option"
  se_bind :: socket_addr
  se_socket :: endpoint_socket

record server_net =
  sn_runtime :: bool
  sn_bind :: "socket_addr \<Rightarrow> spin_socket io_result"
  sn_plain :: "socket_addr \<Rightarrow> unit io_result"
  sn_endpoint :: "client_sock \<Rightarrow> unit io_result"
  sn_local_addr :: "socket_addr \<Rightarrow> socket_addr io_result"
  sn_show_io :: "io_error \<Rightarrow> string"

text \<open>\<open>?\<close> on an \<open>io::Result\<close> in a function that returns an \<open>anyhow::Result\<close>.\<close>

definition anyhow_io :: "server_net \<Rightarrow> 'a io_result \<Rightarrow> anyhow + 'a" where
  "anyhow_io net r = (case r of Inl e \<Rightarrow> Inl [sn_show_io net e] | Inr x \<Rightarrow> Inr x)"

lemma anyhow_io_Inr [simp]: "anyhow_io net r = Inr x \<longleftrightarrow> r = Inr x"
  by (cases r) (simp_all add: anyhow_io_def)

text \<open>\<open>Endpoint::server\<close> on a socket of quinn's own.\<close>

definition endpoint_server :: "server_net \<Rightarrow> 'cfg \<Rightarrow> socket_addr \<Rightarrow> 'cfg server_endpoint io_result" where
  "endpoint_server net config addr =
     (case sn_plain net addr of
        Inl e \<Rightarrow> Inl e
      | Inr _ \<Rightarrow> Inr \<lparr>se_config = Some config, se_bind = addr, se_socket = Quinn_socket\<rparr>)"

text \<open>\<open>Endpoint::new_with_abstract_socket\<close> with the default endpoint configuration.\<close>

definition abstract_endpoint ::
  "server_net \<Rightarrow> socket_addr \<Rightarrow> 'cfg option \<Rightarrow> client_sock \<Rightarrow> 'cfg server_endpoint io_result" where
  "abstract_endpoint net addr config socket =
     (case sn_endpoint net socket of
        Inl e \<Rightarrow> Inl e
      | Inr _ \<Rightarrow> Inr \<lparr>se_config = config, se_bind = addr, se_socket = Own_socket socket\<rparr>)"

definition obfuscated_endpoint_server ::
  "server_net \<Rightarrow> socket_addr \<Rightarrow> salamander \<Rightarrow> 'cfg \<Rightarrow> 'cfg server_endpoint io_result" where
  "obfuscated_endpoint_server net addr obf config =
     obfuscated_server_endpoint (if sn_runtime net then Some () else None) (sn_bind net addr)
       (\<lambda>cfg socket rt. abstract_endpoint net addr cfg socket) obf config"

lemma endpoint_server_eq:
  "endpoint_server net config addr = Inr ep \<Longrightarrow>
     se_config ep = Some config \<and> se_bind ep = addr \<and> se_socket ep = Quinn_socket"
  by (auto simp: endpoint_server_def split: sum.splits)

lemma obfuscated_endpoint_server_eq:
  "obfuscated_endpoint_server net addr obf config = Inr ep \<Longrightarrow>
     se_config ep = Some config \<and> se_bind ep = addr
     \<and> (\<exists>base. sn_bind net addr = Inr base \<and> se_socket ep = Own_socket \<lparr>cs_obf = Some obf, cs_base = base\<rparr>)"
  by (auto simp: obfuscated_endpoint_server_def obfuscated_server_endpoint_def obfuscated_endpoint_def
      abstract_endpoint_def client_socket_def split: sum.splits if_splits)

text \<open>A network on which everything can be bound, for the witnesses.\<close>

definition sample_server_net :: server_net where
  "sample_server_net =
     \<lparr>sn_runtime = True,
      sn_bind = (\<lambda>_. Inr (scripted_socket [] [])),
      sn_plain = (\<lambda>_. Inr ()), sn_endpoint = (\<lambda>_. Inr ()), sn_local_addr = Inr, sn_show_io = (\<lambda>_. ''io'')\<rparr>"

end
