(* ===== verification/Echo_Server.thy ===== *)
theory Echo_Server
  imports Client_Stream Server_Endpoint
begin

text \<open>
  The echo server (\<open>src/src/echo_server.rs\<close>): the accept loop, the requests of one connection in
  sequence, and per request the headers first, every chunk back as it came, and the trailers when the
  client has half-closed.

  The lemmas: what a request writes on a stream that takes every write, and that the headers are out
  before the first read.
\<close>

section \<open>One request\<close>

text \<open>Header values are bytes; \<open>text_bytes\<close> is the bytes of a literal.\<close>

definition text_bytes :: "string \<Rightarrow> bytes" where
  "text_bytes s = map (\<lambda>c. of_nat (of_char c)) s"

fun echo_loop :: "h3_read list \<Rightarrow> h3_send \<Rightarrow> (anyhow + unit) poll \<times> h3_send" where
  "echo_loop [] s = (Pending, s)"
| "echo_loop (Read_error e # reads) s = (Ready (Inl e), s)"
| "echo_loop (End_of_data # reads) s = (Ready (Inr ()), s)"
| "echo_loop (Chunk data # reads) s =
     (case h3_write (Data data) s of
        (Inl e, s') \<Rightarrow> (Ready (Inl e), s')
      | (Inr _, s') \<Rightarrow> echo_loop reads s')"

definition echo_request :: "h3_read list \<Rightarrow> h3_send \<Rightarrow> (anyhow + unit) poll \<times> h3_send" where
  "echo_request reads s0 =
     (case h3_write (Headers 200 [(''content-type'', text_bytes ''application/grpc+proto'')]) s0 of
        (Inl e, s1) \<Rightarrow> (Ready (Inl e), s1)
      | (Inr _, s1) \<Rightarrow>
          (case echo_loop reads s1 of
             (Pending, s2) \<Rightarrow> (Pending, s2)
           | (Ready (Inl e), s2) \<Rightarrow> (Ready (Inl e), s2)
           | (Ready (Inr _), s2) \<Rightarrow>
               (case h3_write (Trailers [(''grpc-status'', text_bytes ''0'')]) s2 of
                  (Inl e, s3) \<Rightarrow> (Ready (Inl e), s3)
                | (Inr _, s3) \<Rightarrow> (Ready (Inr ()), snd (h3_write Fin s3)))))"

section \<open>One connection\<close>

text \<open>
  What \<open>accept\<close> and \<open>resolve_request\<close> answer. A connection handles its requests in sequence; the
  outcome is that of the connection and what was written to each stream it served.
\<close>

datatype accept_answer =
    Accept_failed anyhow
  | Resolve_failed anyhow
  | No_more_requests
  | Accepted "h3_read list" h3_send

fun echo_requests :: "accept_answer list \<Rightarrow> (anyhow + unit) poll \<times> h3_send list" where
  "echo_requests [] = (Pending, [])"
| "echo_requests (Accept_failed e # as) = (Ready (Inl e), [])"
| "echo_requests (Resolve_failed e # as) = (Ready (Inl e), [])"
| "echo_requests (No_more_requests # as) = (Ready (Inr ()), [])"
| "echo_requests (Accepted reads s # as) =
     (case echo_request reads s of
        (Ready (Inr _), s') \<Rightarrow> (let (r, ss) = echo_requests as in (r, s' # ss))
      | (r, s') \<Rightarrow> (r, [s']))"

text \<open>\<open>incoming\<close> and \<open>h3_new\<close> are what the QUIC and the h3 handshake answer.\<close>

definition echo_handle_conn ::
  "anyhow option \<Rightarrow> anyhow option \<Rightarrow> accept_answer list \<Rightarrow> (anyhow + unit) poll \<times> h3_send list" where
  "echo_handle_conn incoming h3_new accepts =
     (case incoming of
        Some e \<Rightarrow> (Ready (Inl e), [])
      | None \<Rightarrow> (case h3_new of Some e \<Rightarrow> (Ready (Inl e), []) | None \<Rightarrow> echo_requests accepts))"

text \<open>
  The accept loop runs each connection in a task of its own; what a connection returns is only logged.
  \<open>spawn_echo_on_endpoint\<close> fails when the endpoint has no local address, and otherwise hands back the
  address, the endpoint and what the tasks do for the connections \<open>incoming\<close>.
\<close>

type_synonym 'a incoming = "(anyhow option \<times> anyhow option \<times> 'a list) list"

record 'cfg server_handle =
  sh_addr :: socket_addr
  sh_endpoint :: "'cfg server_endpoint"
  sh_task :: "((anyhow + unit) poll \<times> h3_send list) list"

definition spawn_echo_on_endpoint ::
  "server_net \<Rightarrow> accept_answer incoming \<Rightarrow> 'cfg server_endpoint \<Rightarrow> anyhow + 'cfg server_handle" where
  "spawn_echo_on_endpoint net incoming endpoint =
     (case anyhow_io net (sn_local_addr net (se_bind endpoint)) of
        Inl e \<Rightarrow> Inl e
      | Inr addr \<Rightarrow>
          Inr \<lparr>sh_addr = addr, sh_endpoint = endpoint,
               sh_task = map (\<lambda>(i, h3, accepts). echo_handle_conn i h3 accepts) incoming\<rparr>)"

definition spawn_echo_server ::
  "server_net \<Rightarrow> accept_answer incoming \<Rightarrow> 'cfg \<Rightarrow> socket_addr \<Rightarrow> anyhow + 'cfg server_handle" where
  "spawn_echo_server net incoming config addr =
     (case anyhow_io net (endpoint_server net config addr) of
        Inl e \<Rightarrow> Inl e
      | Inr endpoint \<Rightarrow> spawn_echo_on_endpoint net incoming endpoint)"

lemma spawn_echo_server_eq:
  "spawn_echo_server net incoming config addr = Inr h \<Longrightarrow>
     se_config (sh_endpoint h) = Some config \<and> se_bind (sh_endpoint h) = addr
     \<and> sh_task h = map (\<lambda>(i, h3, accepts). echo_handle_conn i h3 accepts) incoming"
  by (auto simp: spawn_echo_server_def spawn_echo_on_endpoint_def anyhow_io_def
      dest: endpoint_server_eq split: sum.splits)

lemma echo_requests_first:
  "hd (snd (echo_requests (Accepted reads s # as))) = snd (echo_request reads s)"
  by (cases "echo_request reads s"; cases "fst (echo_request reads s)") (auto split: sum.splits prod.splits)

section \<open>What a request writes\<close>

definition takes_writes :: "h3_send \<Rightarrow> bool" where
  "takes_writes s \<longleftrightarrow> hw_answers s = []"

lemma h3_write_taken [simp]:
  "takes_writes s \<Longrightarrow> h3_write x s = (Inr (), s\<lparr>hw_written := hw_written s @ [x]\<rparr>)"
  "takes_writes s \<Longrightarrow> takes_writes (s\<lparr>hw_written := xs\<rparr>)"
  by (simp_all add: takes_writes_def h3_write_def)

lemma echo_loop_taken:
  assumes "takes_writes s" and "no_chunk rest"
  shows "echo_loop (map Chunk cs @ rest) s =
    (case rest of
       [] \<Rightarrow> Pending
     | Read_error e # _ \<Rightarrow> Ready (Inl e)
     | End_of_data # _ \<Rightarrow> Ready (Inr ())
     | Chunk b # _ \<Rightarrow> Pending, s\<lparr>hw_written := hw_written s @ map Data cs\<rparr>)"
  using assms
proof (induction cs arbitrary: s)
  case Nil
  then show ?case
    by (cases rest rule: ending.cases) simp_all
next
  case (Cons c cs)
  then show ?case
    by simp
qed

lemma h3_write_extends: "\<exists>xs. hw_written (snd (h3_write x s)) = hw_written s @ xs"
  by (auto simp: h3_write_def split: list.split option.split)

definition echo_head :: h3_write where
  "echo_head = Headers 200 [(''content-type'', text_bytes ''application/grpc+proto'')]"

section \<open>Properties\<close>

text \<open>
  On a stream that takes every write, the echo server writes its response headers first, then every
  chunk as it came, and, when the client half-closes, the trailers with status 0 and the end of the
  stream; while the client keeps its side open, headers and echoed chunks are already out.
\<close>

theorem echo_answers_in_kind:
  assumes "takes_writes s" and "hw_written s = []"
  shows "hw_written (snd (echo_request (map Chunk cs @ End_of_data # later) s)) =
      echo_head # map Data cs @ [Trailers [(''grpc-status'', text_bytes ''0'')], Fin]
    \<and> fst (echo_request (map Chunk cs @ End_of_data # later) s) = Ready (Inr ())
    \<and> hw_written (snd (echo_request (map Chunk cs) s)) = echo_head # map Data cs
    \<and> fst (echo_request (map Chunk cs) s) = Pending"
proof -
  have "takes_writes (s\<lparr>hw_written := [echo_head]\<rparr>)"
    using assms(1) by simp
  from echo_loop_taken [OF this, of "End_of_data # later" cs] echo_loop_taken [OF this, of "[]" cs]
  show ?thesis
    using assms by (simp add: echo_request_def echo_head_def)
qed

theorem echo_answers_in_kind_witness:
  "hw_written (snd (echo_request [Chunk [1], Chunk [2], End_of_data] \<lparr>hw_answers = [], hw_written = []\<rparr>)) =
     [echo_head, Data [1], Data [2], Trailers [(''grpc-status'', [48])], Fin]"
  using echo_answers_in_kind [of "\<lparr>hw_answers = [], hw_written = []\<rparr>" "[[1], [2]]" "[]"]
  by (simp add: takes_writes_def text_bytes_def)

text \<open>
  What a client sends through the echo server comes back to it: message for message, however the
  chunks were cut on the way there and on the way back.
\<close>

theorem echo_returns_the_messages:
  assumes "list_all (\<lambda>m. length m < 2 ^ 32) ms" and "concat there = concat (map encode_frame ms)"
    and "takes_writes s" and "hw_written s = []"
    and "concat returned = concat (map payload (hw_written (snd (echo_request (map Chunk there @ [End_of_data]) s))))"
    and "half_ahead rs = (map Chunk returned @ [End_of_data], [])"
  shows "fst (receives half_recv_message (Suc (length ms)) rs)
    = map (\<lambda>m. Ready (Inr (Some m))) ms @ [Ready (Inr None)]"
proof -
  have "takes_writes (s\<lparr>hw_written := [echo_head]\<rparr>)"
    using assms(3) by simp
  from echo_loop_taken [OF this, of "[End_of_data]" there]
  have "hw_written (snd (echo_request (map Chunk there @ [End_of_data]) s)) =
      echo_head # map Data there @ [Trailers [(''grpc-status'', text_bytes ''0'')], Fin]"
    using assms(3,4) by (simp add: echo_request_def echo_head_def)
  moreover have "concat (map payload (map Data bs)) = concat bs" for bs
    by (induction bs) simp_all
  ultimately have "concat returned = concat (map encode_frame ms)"
    using assms(2,5) by (simp add: echo_head_def)
  from half.receives_sent [OF assms(6,1) this] show ?thesis
    by simp
qed

theorem echo_returns_the_messages_witness:
  "fst (receives half_recv_message 2
     (sample_half [Chunk [0], Chunk (drop 1 (encode_frame [5, 6])), End_of_data]))
    = [Ready (Inr (Some [5, 6])), Ready (Inr None)]"
proof -
  let ?s = "\<lparr>hw_answers = [], hw_written = []\<rparr>" and ?there = "[encode_frame [5, 6]]"
  let ?returned = "[[0], drop 1 (encode_frame [5, 6])]"
  have "hw_written (snd (echo_request (map Chunk ?there @ [End_of_data]) ?s)) =
      [echo_head, Data (encode_frame [5, 6]), Trailers [(''grpc-status'', text_bytes ''0'')], Fin]"
    by (simp add: echo_request_def echo_head_def h3_write_def)
  moreover have "concat ?returned = encode_frame [5, 6]"
    by (simp add: encode_frame_def)
  ultimately have "concat ?returned =
      concat (map payload (hw_written (snd (echo_request (map Chunk ?there @ [End_of_data]) ?s))))"
    by (simp add: echo_head_def)
  note run = echo_returns_the_messages [OF _ _ _ _ this, of "[[5, 6]]"
    "sample_half [Chunk [0], Chunk (drop 1 (encode_frame [5, 6])), End_of_data]"]
  have two: "Suc (length [[5, 6 :: u8]]) = 2"
    by simp
  show ?thesis
    using run unfolding two by (simp add: takes_writes_def)
qed

end
