(* ===== verification/Proxy.thy ===== *)
theory Proxy
  imports Echo_Server Tls "HOL-Library.Sublist"
begin

text \<open>
  The reverse proxy (\<open>src/src/proxy.rs\<close>): the listeners, the accept loop, and one proxied call.

  A call is \<open>proxy_request\<close>: it dials the upstream, builds the upstream request, starts the pump from
  the client to the upstream in a task of its own, and itself relays the response. What the call does
  in sequence is the function \<open>proxy_main\<close>; the pump, the channel of 64 frames between it and hyper,
  and the end of the call run interleaved, and \<open>call_step\<close> is that relation. The theory \<open>Proxy_Run\<close> puts
  the two together.

  The lemmas: \<open>call_inv\<close> is an invariant of \<open>call_step\<close>, and \<open>work\<close> a measure of the steps that are left;
  what \<open>relay_body\<close> writes.
\<close>

section \<open>The upstream request\<close>

record proxied =
  pr_method :: string
  pr_path :: "string option"
  pr_headers :: "(string \<times> bytes) list"

text \<open>Header names are lower case in the \<open>http\<close> crate.\<close>

fun copy_headers :: "(string \<times> bytes) list \<Rightarrow> (string \<times> bytes) list \<Rightarrow> (string \<times> bytes) list" where
  "copy_headers [] up = up"
| "copy_headers ((name, val) # headers) up =
     (if name = ''host'' \<or> name = ''connection'' then copy_headers headers up
      else copy_headers headers (up @ [(name, val)]))"

text \<open>\<open>uri_ok\<close> is what the \<open>http\<close> crate says of a URI; the names and values come from a request and are valid.\<close>

definition build_upstream :: "(string \<Rightarrow> anyhow option) \<Rightarrow> proxied \<Rightarrow> string \<Rightarrow> anyhow + proxied" where
  "build_upstream uri_ok req upstream =
     (let path = (case pr_path req of Some p \<Rightarrow> p | None \<Rightarrow> ''/'');
          uri = ''http://'' @ upstream @ path
      in case uri_ok uri of
           Some e \<Rightarrow> Inl (context_of ''build upstream request'' e)
         | None \<Rightarrow>
             Inr \<lparr>pr_method = pr_method req, pr_path = Some uri, pr_headers = copy_headers (pr_headers req) []\<rparr>)"

section \<open>The response\<close>

text \<open>What \<open>body.frame()\<close> answers; an exhausted list is an answer that has not come yet.\<close>

datatype body_answer = Frame_data bytes | Frame_trailers "(string \<times> bytes) list" | Frame_failed anyhow | Body_end

fun relay_body :: "body_answer list \<Rightarrow> h3_send \<Rightarrow> (anyhow + unit) poll \<times> h3_send" where
  "relay_body [] s = (Pending, s)"
| "relay_body (Body_end # fs) s = (Ready (Inr ()), s)"
| "relay_body (Frame_failed e # fs) s = (Ready (Inl (context_of ''upstream body frame'' e)), s)"
| "relay_body (Frame_data data # fs) s =
     (case h3_write (Data data) s of
        (Inl e, s') \<Rightarrow> (Ready (Inl (context_of ''h3 send_data'' e)), s')
      | (Inr _, s') \<Rightarrow> relay_body fs s')"
| "relay_body (Frame_trailers trailers # fs) s =
     (case h3_write (Trailers trailers) s of
        (Inl e, s') \<Rightarrow> (Ready (Inl (context_of ''h3 send_trailers'' e)), s')
      | (Inr _, s') \<Rightarrow> relay_body fs s')"

record upstream_answers =
  ua_dial :: "anyhow option"
  ua_h2 :: "anyhow option"
  ua_response :: "(anyhow + u16 \<times> (string \<times> bytes) list) poll"
  ua_down_ok :: "anyhow option"
  ua_frames :: "body_answer list"

datatype pump_fate = Not_started | Left_running | Stopped_by_call

text \<open>The call in sequence: its result, what it wrote to the client, and what became of the pump.\<close>

definition proxy_main ::
  "(string \<Rightarrow> anyhow option) \<Rightarrow> upstream_answers \<Rightarrow> string \<Rightarrow> proxied \<Rightarrow> h3_send
     \<Rightarrow> (anyhow + unit) poll \<times> h3_send \<times> pump_fate" where
  "proxy_main uri_ok ua upstream req s =
     (case ua_dial ua of
        Some e \<Rightarrow> (Ready (Inl (context_of (''dial upstream '' @ upstream) e)), s, Not_started)
      | None \<Rightarrow>
     (case ua_h2 ua of
        Some e \<Rightarrow> (Ready (Inl (context_of ''upstream h2 handshake'' e)), s, Not_started)
      | None \<Rightarrow>
     (case build_upstream uri_ok req upstream of
        Inl e \<Rightarrow> (Ready (Inl e), s, Not_started)
      | Inr up_req \<Rightarrow>
     (case ua_response ua of
        Pending \<Rightarrow> (Pending, s, Left_running)
      | Ready (Inl e) \<Rightarrow> (Ready (Inl (context_of ''upstream send_request'' e)), s, Left_running)
      | Ready (Inr (status, headers)) \<Rightarrow>
     (case ua_down_ok ua of
        Some e \<Rightarrow> (Ready (Inl (context_of ''build downstream response'' e)), s, Left_running)
      | None \<Rightarrow>
     (case h3_write (Headers status headers) s of
        (Inl e, s1) \<Rightarrow> (Ready (Inl (context_of ''h3 send_response'' e)), s1, Left_running)
      | (Inr _, s1) \<Rightarrow>
     (case relay_body (ua_frames ua) s1 of
        (Ready (Inr _), s2) \<Rightarrow>
          (case h3_write Fin s2 of
             (Inl e, s3) \<Rightarrow> (Ready (Inl (context_of ''h3 finish'' e)), s3, Left_running)
           | (Inr _, s3) \<Rightarrow> (Ready (Inr ()), s3, Stopped_by_call))
      | (r, s2) \<Rightarrow> (r, s2, Left_running))))))))"

section \<open>The pump, the channel and the end of the call\<close>

datatype pump = Pumping | Holding bytes | Pump_done | Pump_aborted

datatype call_main = Relaying | Call_ok | Call_failed

text \<open>
  \<open>k_sent\<close> is what hyper has taken out of the channel, \<open>k_ended\<close> that it has seen the end of the body,
  \<open>k_body\<close> that it still holds the body.
\<close>

record call =
  k_reads :: "h3_read list"
  k_pump :: pump
  k_queue :: "bytes list"
  k_body :: bool
  k_sent :: "bytes list"
  k_ended :: bool
  k_main :: call_main

definition CHANNEL_SIZE :: nat where "CHANNEL_SIZE = 64"

definition start_call :: "h3_read list \<Rightarrow> call" where
  "start_call reads = \<lparr>k_reads = reads, k_pump = Pumping, k_queue = [], k_body = True, k_sent = [],
     k_ended = False, k_main = Relaying\<rparr>"

definition pump_over :: "pump \<Rightarrow> bool" where
  "pump_over a \<longleftrightarrow> a = Pump_done \<or> a = Pump_aborted"

inductive call_step :: "call \<Rightarrow> call \<Rightarrow> bool" where
  pump_chunk [step_intros]:
    "k_pump k = Pumping \<Longrightarrow> k_reads k = Chunk b # rs \<Longrightarrow>
       call_step k (k\<lparr>k_reads := rs, k_pump := Holding b\<rparr>)"
| pump_send [step_intros]:
    "k_pump k = Holding b \<Longrightarrow> k_body k \<Longrightarrow> length (k_queue k) < CHANNEL_SIZE \<Longrightarrow>
       call_step k (k\<lparr>k_pump := Pumping, k_queue := k_queue k @ [b]\<rparr>)"
| pump_upstream_gone [step_intros]:
    "k_pump k = Holding b \<Longrightarrow> \<not> k_body k \<Longrightarrow> call_step k (k\<lparr>k_pump := Pump_done\<rparr>)"
| pump_half_close [step_intros]:
    "k_pump k = Pumping \<Longrightarrow> k_reads k = End_of_data # rs \<Longrightarrow>
       call_step k (k\<lparr>k_reads := rs, k_pump := Pump_done\<rparr>)"
| pump_read_error [step_intros]:
    "k_pump k = Pumping \<Longrightarrow> k_reads k = Read_error e # rs \<Longrightarrow>
       call_step k (k\<lparr>k_reads := rs, k_pump := Pump_done\<rparr>)"
| hyper_takes [step_intros]:
    "k_body k \<Longrightarrow> \<not> k_ended k \<Longrightarrow> k_queue k = b # bs \<Longrightarrow>
       call_step k (k\<lparr>k_queue := bs, k_sent := k_sent k @ [b]\<rparr>)"
| hyper_ends [step_intros]:
    "k_body k \<Longrightarrow> k_queue k = [] \<Longrightarrow> pump_over (k_pump k) \<Longrightarrow> call_step k (k\<lparr>k_ended := True\<rparr>)"
| hyper_drops [step_intros]:
    "k_body k \<Longrightarrow> call_step k (k\<lparr>k_body := False, k_queue := []\<rparr>)"
| call_ok [step_intros]:
    "k_main k = Relaying \<Longrightarrow>
       call_step k (k\<lparr>k_main := Call_ok, k_pump := (if pump_over (k_pump k) then k_pump k else Pump_aborted)\<rparr>)"
| call_fails [step_intros]:
    "k_main k = Relaying \<Longrightarrow> call_step k (k\<lparr>k_main := Call_failed\<rparr>)"

definition call_reaches :: "h3_read list \<Rightarrow> call \<Rightarrow> bool" where
  "call_reaches reads k \<longleftrightarrow> call_step\<^sup>*\<^sup>* (start_call reads) k"

text \<open>The chunks the client sends before its side ends, in whatever way.\<close>

fun leading_chunks :: "h3_read list \<Rightarrow> bytes list" where
  "leading_chunks (Chunk b # rs) = b # leading_chunks rs"
| "leading_chunks _ = []"

primrec in_hand :: "pump \<Rightarrow> bytes list" where
  "in_hand Pumping = []"
| "in_hand (Holding b) = [b]"
| "in_hand Pump_done = []"
| "in_hand Pump_aborted = []"

definition call_inv :: "h3_read list \<Rightarrow> call \<Rightarrow> bool" where
  "call_inv reads k \<longleftrightarrow>
     length (k_queue k) \<le> CHANNEL_SIZE
     \<and> prefix (k_sent k @ k_queue k) (leading_chunks reads)
     \<and> (k_body k \<and> \<not> pump_over (k_pump k) \<longrightarrow>
          leading_chunks reads = k_sent k @ k_queue k @ in_hand (k_pump k) @ leading_chunks (k_reads k))
     \<and> (k_body k \<and> k_pump k = Pump_done \<longrightarrow> leading_chunks reads = k_sent k @ k_queue k)
     \<and> (k_ended k \<longrightarrow> pump_over (k_pump k) \<and> k_queue k = [])
     \<and> (k_pump k = Pump_aborted \<longrightarrow> k_main k = Call_ok)
     \<and> (k_main k = Call_ok \<longrightarrow> pump_over (k_pump k))"

lemma call_inv_start: "call_inv reads (start_call reads)"
  by (simp add: call_inv_def start_call_def pump_over_def)

lemma prefix_drop_queue: "prefix (a @ b) c \<Longrightarrow> prefix a c"
  by (auto simp: prefix_def)

lemma call_inv_step: "call_step k k' \<Longrightarrow> call_inv reads k \<Longrightarrow> call_inv reads k'"
  by (induction rule: call_step.induct)
    (auto simp: call_inv_def pump_over_def prefix_drop_queue)

interpretation call: transition_invariant call_step "call_inv reads"
  for reads
  by unfold_locales (rule call_inv_step)

lemma call_reaches_inv: "call_reaches reads k \<Longrightarrow> call_inv reads k"
  unfolding call_reaches_def by (rule call.reached [OF _ call_inv_start])

section \<open>The listeners\<close>

text \<open>
  The accept loop of one connection, \<open>handle_conn\<close>: every call it resolves runs as \<open>proxy_request\<close> in
  a task of its own; one that cannot be resolved is logged and skipped, an \<open>accept\<close> that fails ends
  the connection. The value of a task is that of \<open>proxy_main\<close>.
\<close>

record proxied_call =
  pc_request :: proxied
  pc_stream :: h3_send
  pc_answers :: upstream_answers

datatype call_accept =
    Call_accept_failed anyhow
  | Call_resolve_failed anyhow
  | No_more_calls
  | Call_resolved proxied_call

type_synonym call_outcome = "(anyhow + unit) poll \<times> h3_send \<times> pump_fate"

fun spawned_calls ::
  "(string \<Rightarrow> anyhow option) \<Rightarrow> string \<Rightarrow> call_accept list \<Rightarrow> (anyhow + unit) poll \<times> call_outcome list" where
  "spawned_calls uri_ok upstream [] = (Pending, [])"
| "spawned_calls uri_ok upstream (Call_accept_failed e # as) = (Ready (Inl e), [])"
| "spawned_calls uri_ok upstream (No_more_calls # as) = (Ready (Inr ()), [])"
| "spawned_calls uri_ok upstream (Call_resolve_failed e # as) = spawned_calls uri_ok upstream as"
| "spawned_calls uri_ok upstream (Call_resolved c # as) =
     (let (r, calls) = spawned_calls uri_ok upstream as in
      (r, proxy_main uri_ok (pc_answers c) upstream (pc_request c) (pc_stream c) # calls))"

definition proxy_handle_conn ::
  "(string \<Rightarrow> anyhow option) \<Rightarrow> string \<Rightarrow> anyhow option \<Rightarrow> anyhow option \<Rightarrow> call_accept list
     \<Rightarrow> (anyhow + unit) poll \<times> call_outcome list" where
  "proxy_handle_conn uri_ok upstream incoming h3_new accepts =
     (case incoming of
        Some e \<Rightarrow> (Ready (Inl e), [])
      | None \<Rightarrow>
          (case h3_new of Some e \<Rightarrow> (Ready (Inl e), []) | None \<Rightarrow> spawned_calls uri_ok upstream accepts))"

record 'cfg proxy_handle =
  ph_addr :: socket_addr
  ph_endpoint :: "'cfg server_endpoint"
  ph_task :: "((anyhow + unit) poll \<times> call_outcome list) list"

text \<open>What the outside does to a proxy: the network, the connections and the \<open>http\<close> crate.\<close>

record proxy_env =
  px_net :: server_net
  px_incoming :: "call_accept incoming"
  px_uri_ok :: "string \<Rightarrow> anyhow option"

definition serve_on_endpoint ::
  "proxy_env \<Rightarrow> 'cfg server_endpoint \<Rightarrow> string \<Rightarrow> anyhow + 'cfg proxy_handle" where
  "serve_on_endpoint px endpoint upstream =
     (case anyhow_io (px_net px) (sn_local_addr (px_net px) (se_bind endpoint)) of
        Inl e \<Rightarrow> Inl e
      | Inr addr \<Rightarrow>
          Inr \<lparr>ph_addr = addr, ph_endpoint = endpoint,
               ph_task = map (\<lambda>(i, h3, accepts). proxy_handle_conn (px_uri_ok px) upstream i h3 accepts)
                 (px_incoming px)\<rparr>)"

definition serve :: "proxy_env \<Rightarrow> 'cfg \<Rightarrow> socket_addr \<Rightarrow> string \<Rightarrow> anyhow + 'cfg proxy_handle" where
  "serve px config addr upstream =
     (case anyhow_io (px_net px) (endpoint_server (px_net px) config addr) of
        Inl e \<Rightarrow> Inl e
      | Inr endpoint \<Rightarrow> serve_on_endpoint px endpoint upstream)"

definition serve_obfuscated ::
  "('i, 'm, 'z) quinn_defaults \<Rightarrow> tls_checks \<Rightarrow> proxy_env \<Rightarrow> cert_bundle \<Rightarrow> socket_addr \<Rightarrow> string \<Rightarrow> bytes
     \<Rightarrow> anyhow + ('i, 'm, 'z) transport_config_scheme server_config proxy_handle" where
  "serve_obfuscated q ck px bundle addr upstream psk =
     (case server_config_obf q ck bundle of
        Inl e \<Rightarrow> Inl e
      | Inr config \<Rightarrow>
          (case anyhow_io (px_net px)
                  (obfuscated_endpoint_server (px_net px) addr (salamander_new psk) config) of
             Inl e \<Rightarrow> Inl e
           | Inr endpoint \<Rightarrow> serve_on_endpoint px endpoint upstream))"

lemma serve_on_endpoint_eq:
  "serve_on_endpoint px endpoint upstream = Inr h \<Longrightarrow> ph_endpoint h = endpoint"
  by (auto simp: serve_on_endpoint_def split: sum.splits)

lemma serve_eq:
  assumes "serve px config addr upstream = Inr h"
  shows "se_config (ph_endpoint h) = Some config \<and> se_bind (ph_endpoint h) = addr
    \<and> se_socket (ph_endpoint h) = Quinn_socket"
proof -
  obtain ep where "endpoint_server (px_net px) config addr = Inr ep" "serve_on_endpoint px ep upstream = Inr h"
    using assms by (auto simp: serve_def split: sum.splits)
  with endpoint_server_eq serve_on_endpoint_eq show ?thesis
    by metis
qed

lemma serve_obfuscated_eq:
  assumes "serve_obfuscated q ck px bundle addr upstream psk = Inr h"
  shows "se_config (ph_endpoint h) \<noteq> None \<and> server_config_obf q ck bundle = Inr (the (se_config (ph_endpoint h)))
    \<and> se_bind (ph_endpoint h) = addr
    \<and> (\<exists>base. sn_bind (px_net px) addr = Inr base
         \<and> se_socket (ph_endpoint h) = Own_socket \<lparr>cs_obf = Some (salamander_new psk), cs_base = base\<rparr>)"
proof -
  obtain config ep where "server_config_obf q ck bundle = Inr config"
    "obfuscated_endpoint_server (px_net px) addr (salamander_new psk) config = Inr ep"
    "serve_on_endpoint px ep upstream = Inr h"
    using assms by (auto simp: serve_obfuscated_def split: sum.splits)
  with obfuscated_endpoint_server_eq serve_on_endpoint_eq show ?thesis
    by (metis option.distinct(1) option.sel)
qed

section \<open>Properties\<close>

lemma copy_headers_eq:
  "copy_headers headers up = up @ filter (\<lambda>(n, v). n \<noteq> ''host'' \<and> n \<noteq> ''connection'') headers"
  by (induction headers up rule: copy_headers.induct) auto

text \<open>
  The upstream sees the client's method, path and headers: only \<open>host\<close> and \<open>connection\<close> are
  left out, the others keep their order, their values and their repetitions, and a request without a
  path asks for the root. Every other hop-by-hop header passes too.
\<close>

theorem the_upstream_request_is_the_clients:
  "build_upstream uri_ok req upstream =
     (let uri = ''http://'' @ upstream @ (case pr_path req of Some p \<Rightarrow> p | None \<Rightarrow> ''/'')
      in case uri_ok uri of
           Some e \<Rightarrow> Inl (context_of ''build upstream request'' e)
         | None \<Rightarrow> Inr (req\<lparr>pr_path := Some uri,
             pr_headers := filter (\<lambda>(n, v). n \<notin> {''host'', ''connection''}) (pr_headers req)\<rparr>))
   \<and> copy_headers [(''transfer-encoding'', c), (''keep-alive'', k), (''connection'', x)] []
       = [(''transfer-encoding'', c), (''keep-alive'', k)]"
  by (auto simp: build_upstream_def copy_headers_eq Let_def split: option.split)

fun relayed :: "body_answer list \<Rightarrow> h3_write list" where
  "relayed (Frame_data d # fs) = Data d # relayed fs"
| "relayed (Frame_trailers t # fs) = Trailers t # relayed fs"
| "relayed _ = []"

fun body_outcome :: "body_answer list \<Rightarrow> (anyhow + unit) poll" where
  "body_outcome [] = Pending"
| "body_outcome (Body_end # fs) = Ready (Inr ())"
| "body_outcome (Frame_failed e # fs) = Ready (Inl (context_of ''upstream body frame'' e))"
| "body_outcome (Frame_data d # fs) = body_outcome fs"
| "body_outcome (Frame_trailers t # fs) = body_outcome fs"

lemma relay_body_taken:
  "takes_writes s \<Longrightarrow>
     relay_body fs s = (body_outcome fs, s\<lparr>hw_written := hw_written s @ relayed fs\<rparr>)"
  by (induction fs s rule: relay_body.induct) simp_all

text \<open>
  C25: Once the upstream has answered, the client gets the status and headers, then every frame of the
  body in order, and the end of the stream exactly when the upstream body ended without an error; the
  call succeeds exactly then, and only then is the pump stopped by the call.
\<close>

theorem the_response_is_relayed:
  assumes "ua_dial ua = None" and "ua_h2 ua = None" and "build_upstream uri_ok req upstream = Inr up_req"
    and "ua_response ua = Ready (Inr (status, headers))" and "ua_down_ok ua = None"
    and "takes_writes s" and "hw_written s = []"
  shows "let (r, s', fate) = proxy_main uri_ok ua upstream req s in
     r = body_outcome (ua_frames ua)
     \<and> hw_written s' = Headers status headers # relayed (ua_frames ua) @ (if r = Ready (Inr ()) then [Fin] else [])
     \<and> fate = (if r = Ready (Inr ()) then Stopped_by_call else Left_running)"
proof -
  have "takes_writes (s\<lparr>hw_written := [Headers status headers]\<rparr>)"
    using assms(6) by simp
  note relay = relay_body_taken [OF this, of "ua_frames ua"]
  show ?thesis
    using assms relay
    by (cases "body_outcome (ua_frames ua)"; cases "\<exists>e. body_outcome (ua_frames ua) = Ready (Inl e)")
      (auto simp: proxy_main_def Let_def split: sum.splits)
qed

definition sample_upstream :: "body_answer list \<Rightarrow> upstream_answers" where
  "sample_upstream fs = \<lparr>ua_dial = None, ua_h2 = None, ua_response = Ready (Inr (200, [])),
     ua_down_ok = None, ua_frames = fs\<rparr>"

theorem the_response_is_relayed_witness:
  "fst (proxy_main (\<lambda>_. None) (sample_upstream [Frame_data [1], Frame_trailers [], Body_end]) ''envoy:8080''
      \<lparr>pr_method = ''POST'', pr_path = Some ''/S/M'', pr_headers = []\<rparr> \<lparr>hw_answers = [], hw_written = []\<rparr>)
    = Ready (Inr ())"
proof -
  let ?ua = "sample_upstream [Frame_data [1], Frame_trailers [], Body_end]"
  let ?req = "\<lparr>pr_method = ''POST'', pr_path = Some ''/S/M'', pr_headers = []\<rparr>"
  have "build_upstream (\<lambda>_. None) ?req ''envoy:8080'' =
      Inr \<lparr>pr_method = ''POST'', pr_path = Some ''http://envoy:8080/S/M'', pr_headers = []\<rparr>"
    by (simp add: build_upstream_def)
  from the_response_is_relayed [of ?ua, OF _ _ this, of 200 "[]" "\<lparr>hw_answers = [], hw_written = []\<rparr>"]
  show ?thesis
    by (simp add: sample_upstream_def takes_writes_def Let_def case_prod_beta)
qed

text \<open>
  C12: In every interleaving of the pump, the channel, hyper and the call, what the upstream has been
  sent is a prefix of the client's chunks in order, at most 64 frames wait in the channel, and when
  hyper sees the end of a body whose pump was not aborted, every chunk of the client is there.
\<close>

theorem the_upstream_gets_the_clients_bytes:
  assumes "call_reaches reads k"
  shows "prefix (k_sent k) (leading_chunks reads) \<and> length (k_queue k) \<le> 64
    \<and> (k_ended k \<and> k_body k \<and> k_pump k \<noteq> Pump_aborted \<longrightarrow> k_sent k = leading_chunks reads)
    \<and> (k_main k = Call_ok \<longrightarrow> pump_over (k_pump k))"
  using call_reaches_inv [OF assms] prefix_drop_queue [of "k_sent k" "k_queue k" "leading_chunks reads"]
  by (auto simp: call_inv_def CHANNEL_SIZE_def pump_over_def)

lemma call_reaches_start: "call_reaches reads (start_call reads)"
  by (simp add: call_reaches_def)

lemma call_reaches_step: "call_reaches reads k \<Longrightarrow> call_step k k' \<Longrightarrow> call_reaches reads k'"
  unfolding call_reaches_def by (rule rtranclp.rtrancl_into_rtrancl)

text \<open>A run: one chunk goes through, then the client's side ends with \<open>last\<close>.\<close>

lemma one_chunk_run:
  assumes "last_read = End_of_data \<or> last_read = Read_error e"
  shows "call_reaches [Chunk b, last_read]
    \<lparr>k_reads = [], k_pump = Pump_done, k_queue = [], k_body = True, k_sent = [b], k_ended = True,
     k_main = Relaying\<rparr>"
proof -
  let ?k = "\<lambda>rs p q sent ended. \<lparr>k_reads = rs, k_pump = p, k_queue = q, k_body = True, k_sent = sent,
    k_ended = ended, k_main = Relaying\<rparr>"
  have "call_step (?k [Chunk b, last_read] Pumping [] [] False) (?k [last_read] (Holding b) [] [] False)"
    using call_step.pump_chunk [of "?k [Chunk b, last_read] Pumping [] [] False" b "[last_read]"] by simp
  moreover have "call_step (?k [last_read] (Holding b) [] [] False) (?k [last_read] Pumping [b] [] False)"
    using call_step.pump_send [of "?k [last_read] (Holding b) [] [] False" b] by (simp add: CHANNEL_SIZE_def)
  moreover have "call_step (?k [last_read] Pumping [b] [] False) (?k [] Pump_done [b] [] False)"
    using assms call_step.pump_half_close [of "?k [last_read] Pumping [b] [] False" "[]"]
      call_step.pump_read_error [of "?k [last_read] Pumping [b] [] False" e "[]"] by auto
  moreover have "call_step (?k [] Pump_done [b] [] False) (?k [] Pump_done [] [b] False)"
    using call_step.hyper_takes [of "?k [] Pump_done [b] [] False" b "[]"] by simp
  moreover have "call_step (?k [] Pump_done [] [b] False) (?k [] Pump_done [] [b] True)"
    using call_step.hyper_ends [of "?k [] Pump_done [] [b] False"] by (simp add: pump_over_def)
  ultimately show ?thesis
    using call_reaches_start [of "[Chunk b, last_read]"] call_reaches_step
    unfolding start_call_def by blast
qed

theorem the_upstream_gets_the_clients_bytes_witness:
  "call_reaches [Chunk [1], End_of_data] \<lparr>k_reads = [], k_pump = Pump_done, k_queue = [], k_body = True,
      k_sent = [[1]], k_ended = True, k_main = Relaying\<rparr>
   \<and> [[1]] = leading_chunks [Chunk [1], End_of_data]"
  using one_chunk_run [of End_of_data "[]" "[1]"]
    the_upstream_gets_the_clients_bytes [OF one_chunk_run [of End_of_data "[]" "[1]"]] by simp

text \<open>
  A call comes to rest. The steps that are left are bounded by \<open>work\<close>; the only step that does not use
  some of it up is hyper looking again at a body that has ended, which changes nothing.
\<close>

primrec pump_work :: "pump \<Rightarrow> nat" where
  "pump_work Pumping = 1"
| "pump_work (Holding b) = 3"
| "pump_work Pump_done = 0"
| "pump_work Pump_aborted = 0"

definition work :: "call \<Rightarrow> nat" where
  "work k = 3 * length (k_reads k) + pump_work (k_pump k) + length (k_queue k)
     + of_bool (k_body k) + of_bool (\<not> k_ended k) + of_bool (k_main k = Relaying)"

lemma call_step_works: "call_step k k' \<Longrightarrow> k' \<noteq> k \<Longrightarrow> work k' < work k"
proof (induction rule: call_step.induct)
  case (hyper_ends k)
  then show ?case
    by (cases "k_ended k") (auto simp: work_def)
next
  case (call_ok k)
  then show ?case
    by (cases "k_pump k") (auto simp: work_def pump_over_def)
qed (auto simp: work_def)

definition at_rest :: "call \<Rightarrow> bool" where
  "at_rest k \<longleftrightarrow> \<not> k_body k \<and> k_main k \<noteq> Relaying
     \<and> (pump_over (k_pump k) \<or> k_pump k = Pumping \<and> k_reads k = [])"

inductive_simps call_steps: "call_step k k'"

lemma at_rest_no_step: "at_rest k \<Longrightarrow> \<not> call_step k k'"
  by (auto simp: at_rest_def pump_over_def call_steps)

lemma restless_pump:
  assumes "k_pump k = Holding b \<or> k_pump k = Pumping \<and> k_reads k \<noteq> []"
    and "k_body k \<Longrightarrow> length (k_queue k) < CHANNEL_SIZE"
  shows "\<exists>k'. call_step k k' \<and> k_pump k' \<noteq> k_pump k \<and> k_body k' = k_body k \<and> k_pump k' \<noteq> Pump_aborted"
  using assms(1)
proof
  assume "k_pump k = Holding b"
  with assms(2) show ?thesis
    using call_step.pump_send [of k b] call_step.pump_upstream_gone [of k b] by (cases "k_body k") force+
next
  assume "k_pump k = Pumping \<and> k_reads k \<noteq> []"
  then obtain x rs where "k_pump k = Pumping" "k_reads k = x # rs"
    by (cases "k_reads k") auto
  then show ?thesis
    by (cases x) (force intro!: exI step_intros)+
qed

lemma at_rest_iff: "at_rest k \<longleftrightarrow> (\<forall>k'. \<not> call_step k k')"
proof
  assume stuck: "\<forall>k'. \<not> call_step k k'"
  then have body: "\<not> k_body k" and main: "k_main k \<noteq> Relaying"
    using call_step.hyper_drops call_step.call_fails by blast+
  have "pump_over (k_pump k) \<or> k_pump k = Pumping \<and> k_reads k = []"
    using restless_pump [of k] stuck body by (cases "k_pump k") (auto simp: pump_over_def)
  with body main show "at_rest k"
    by (simp add: at_rest_def)
qed (use at_rest_no_step in blast)

text \<open>The client's side ends, by a half-close or by an error.\<close>

definition client_ends :: "h3_read list \<Rightarrow> bool" where
  "client_ends rs \<longleftrightarrow> (\<exists>x \<in> set rs. \<forall>b. x \<noteq> Chunk b)"

definition ends_or_over :: "call \<Rightarrow> bool" where
  "ends_or_over k \<longleftrightarrow> client_ends (k_reads k) \<or> pump_over (k_pump k)"

interpretation ending_call: transition_invariant call_step ends_or_over
proof
  show "call_step k k' \<Longrightarrow> ends_or_over k \<Longrightarrow> ends_or_over k'" for k k'
    by (induction rule: call_step.induct) (auto simp: ends_or_over_def client_ends_def pump_over_def)
qed

text \<open>While hyper holds the body, the pump and hyper alone can take the next step towards its end.\<close>

lemma next_delivery_step:
  assumes "k_body k" and "k_pump k \<noteq> Pump_aborted" and "ends_or_over k" and "\<not> k_ended k"
  shows "\<exists>k'. call_step k k' \<and> k' \<noteq> k \<and> k_body k' \<and> k_pump k' \<noteq> Pump_aborted"
proof (cases "k_queue k")
  case (Cons b bs)
  with assms call_step.hyper_takes [of k b bs] show ?thesis
    by (intro exI [of _ "k\<lparr>k_queue := bs, k_sent := k_sent k @ [b]\<rparr>"]) (auto dest: arg_cong [of _ _ k_queue])
next
  case Nil
  show ?thesis
  proof (cases "pump_over (k_pump k)")
    case True
    with Nil assms call_step.hyper_ends [of k] show ?thesis
      by (intro exI [of _ "k\<lparr>k_ended := True\<rparr>"]) (auto dest: arg_cong [of _ _ k_ended])
  next
    case False
    with assms(3) have "(\<exists>b. k_pump k = Holding b) \<or> k_pump k = Pumping \<and> k_reads k \<noteq> []"
      by (cases "k_pump k") (auto simp: ends_or_over_def client_ends_def pump_over_def)
    with restless_pump [of k] Nil assms(1) show ?thesis
      by (auto simp: CHANNEL_SIZE_def)
  qed
qed

lemma delivery_completes:
  assumes "k_body k" and "k_pump k \<noteq> Pump_aborted" and "ends_or_over k"
  shows "\<exists>k'. call_step\<^sup>*\<^sup>* k k' \<and> k_ended k' \<and> k_body k' \<and> k_pump k' \<noteq> Pump_aborted"
  using assms
proof (induction "work k" arbitrary: k rule: less_induct)
  case less
  show ?case
  proof (cases "k_ended k")
    case False
    with less.prems next_delivery_step [of k] obtain k' where
      step: "call_step k k'" and k': "k' \<noteq> k" "k_body k'" "k_pump k' \<noteq> Pump_aborted"
      by blast
    from ending_call.kept [OF step less.prems(3)] less.hyps [OF call_step_works [OF step k'(1)] k'(2,3)]
    show ?thesis
      using step by (meson converse_rtranclp_into_rtranclp)
  qed (use less.prems in blast)
qed

text \<open>
  C13: Every call comes to rest, and until then nothing is stuck. Each step that changes a call uses up
  some of its work, so there is no run for ever; it can go no further exactly when hyper has let go of
  the body, the call has returned, and the pump is over or waits for the client. As long as hyper holds
  the body and the call has not stopped the pump, a client that ends its side gets through whatever the
  channel's 64 places and the order of the steps: a run to the end of the body exists in which the
  upstream has every chunk.
\<close>

theorem every_call_comes_to_rest:
  assumes "call_reaches reads k"
  shows "(\<forall>k'. call_step k k' \<and> k' \<noteq> k \<longrightarrow> work k' < work k)
    \<and> ((\<forall>k'. \<not> call_step k k') \<longleftrightarrow> at_rest k)
    \<and> (k_body k \<and> k_pump k \<noteq> Pump_aborted \<and> client_ends reads \<longrightarrow>
         (\<exists>k'. call_step\<^sup>*\<^sup>* k k' \<and> k_ended k' \<and> k_sent k' = leading_chunks reads))"
proof (intro conjI impI)
  assume k: "k_body k \<and> k_pump k \<noteq> Pump_aborted \<and> client_ends reads"
  then have "ends_or_over (start_call reads)"
    by (simp add: ends_or_over_def start_call_def)
  with assms have "ends_or_over k"
    unfolding call_reaches_def by (rule ending_call.reached)
  with k delivery_completes [of k] obtain k' where k': "call_step\<^sup>*\<^sup>* k k'" "k_ended k'" "k_body k'"
      "k_pump k' \<noteq> Pump_aborted"
    by blast
  with assms have "call_reaches reads k'"
    unfolding call_reaches_def by simp
  with k' call_reaches_inv [of reads k'] show "\<exists>k'. call_step\<^sup>*\<^sup>* k k' \<and> k_ended k' \<and> k_sent k' = leading_chunks reads"
    by (intro exI [of _ k']) (auto simp: call_inv_def pump_over_def)
qed (auto simp: at_rest_iff intro: call_step_works)

theorem every_call_comes_to_rest_witness:
  "\<exists>k. call_step\<^sup>*\<^sup>* (start_call [Chunk [1], End_of_data]) k \<and> k_ended k \<and> k_sent k = [[1]]"
  using every_call_comes_to_rest [OF call_reaches_start [of "[Chunk [1], End_of_data]"]]
  by (simp add: start_call_def client_ends_def)

text \<open>
  A client that breaks off is forwarded as one that has finished: when the read from the client
  fails, the upstream sees the same bytes and the same clean end of the body as after a half-close.
\<close>

theorem a_broken_client_looks_finished:
  "\<exists>k. call_reaches [Chunk b, Read_error e] k \<and> call_reaches [Chunk b, End_of_data] k
     \<and> k_ended k \<and> k_sent k = [b]"
  using one_chunk_run [of "Read_error e" e b] one_chunk_run [of End_of_data e b] by fastforce

text \<open>
  A call that fails leaves its pump behind: the call has returned its error and the pump still
  takes chunks from the client.
\<close>

theorem a_failed_call_leaves_its_pump_running:
  "\<exists>k k'. call_reaches [Chunk b, Chunk c] k \<and> k_main k = Call_failed \<and> call_step k k'
     \<and> k_pump k = Pumping \<and> k_pump k' = Holding c"
proof -
  let ?k0 = "start_call [Chunk b, Chunk c]"
  let ?k1 = "?k0\<lparr>k_main := Call_failed\<rparr>"
  let ?k2 = "?k1\<lparr>k_reads := [Chunk c], k_pump := Holding b\<rparr>"
  let ?k3 = "?k2\<lparr>k_pump := Pumping, k_queue := [b]\<rparr>"
  have "call_step ?k0 ?k1"
    by (rule call_step.call_fails) (simp add: start_call_def)
  moreover have "call_step ?k1 ?k2"
    by (rule call_step.pump_chunk) (simp_all add: start_call_def)
  moreover have "call_step ?k2 ?k3"
    using call_step.pump_send [of ?k2 b] by (simp add: start_call_def CHANNEL_SIZE_def)
  ultimately have "call_reaches [Chunk b, Chunk c] ?k3"
    using call_reaches_start call_reaches_step by blast
  moreover have "call_step ?k3 (?k3\<lparr>k_reads := [], k_pump := Holding c\<rparr>)"
    by (rule call_step.pump_chunk) simp_all
  ultimately show ?thesis
    by (intro exI [of _ ?k3] exI [of _ "?k3\<lparr>k_reads := [], k_pump := Holding c\<rparr>"]) simp
qed

end
