(* ===== verification/Rust_Text.thy ===== *)
theory Rust_Text
  imports Transport_Base
begin

text \<open>
  What the command-line programs use of Rust's strings and integers: slices of a \<open>str\<close> (which panic
  off a character boundary), \<open>trim\<close>, \<open>contains\<close>, \<open>split_whitespace\<close>, and \<open>from_str_radix\<close> and \<open>parse\<close>
  for unsigned integers. A \<open>str\<close> is its UTF-8 bytes, a list of \<open>char\<close>.

  The lemmas: hexadecimal pairs round-trip through \<open>from_str_radix\<close>; how words of visible ASCII and a
  text without the first character of a pattern are passed over.
\<close>

section \<open>Slices of a str\<close>

definition char_boundary :: "string \<Rightarrow> nat \<Rightarrow> bool" where
  "char_boundary s i \<longleftrightarrow>
     i = length s \<or> i < length s \<and> (of_char (s ! i) < (128 :: nat) \<or> 192 \<le> (of_char (s ! i) :: nat))"

definition str_slice :: "string \<Rightarrow> nat \<Rightarrow> nat \<Rightarrow> string rust" where
  "str_slice s i j =
     (if i \<le> j \<and> j \<le> length s \<and> char_boundary s i \<and> char_boundary s j
      then Ret (take (j - i) (drop i s)) else Panic)"

section \<open>trim\<close>

text \<open>The UTF-8 forms of the characters with the property White_Space.\<close>

definition white_space :: "string list" where
  "white_space =
     map (map char_of)
       ([[9], [10], [11], [12], [13], [32], [194, 133], [194, 160], [225, 154, 128],
         [226, 128, 168], [226, 128, 169], [226, 128, 175], [226, 129, 159], [227, 128, 128]]
        @ map (\<lambda>n. [226, 128, n]) [128..<139] :: nat list list)"

definition take_white :: "string \<Rightarrow> string option" where
  "take_white s = find (\<lambda>w. take (length w) s = w) white_space"

lemma white_space_nonempty: "w \<in> set white_space \<Longrightarrow> w \<noteq> []"
  by (auto simp: white_space_def)

lemma take_white_shorter:
  assumes "take_white s = Some w"
  shows "length (drop (length w) s) < length s"
proof -
  have w: "w \<in> set white_space" "take (length w) s = w"
    using assms by (auto simp: take_white_def find_Some_iff)
  then have "w \<noteq> []"
    using white_space_nonempty by blast
  with w(2) show ?thesis
    by (cases s) auto
qed

function trim_start :: "string \<Rightarrow> string" where
  "trim_start s = (case take_white s of None \<Rightarrow> s | Some w \<Rightarrow> trim_start (drop (length w) s))"
  by pat_completeness auto
termination
  by (relation "measure length") (auto dest: take_white_shorter)

declare trim_start.simps [simp del]

definition take_white_end :: "string \<Rightarrow> string option" where
  "take_white_end s = find (\<lambda>w. length w \<le> length s \<and> drop (length s - length w) s = w) white_space"

lemma take_white_end_shorter:
  assumes "take_white_end s = Some w"
  shows "length (take (length s - length w) s) < length s"
proof -
  have w: "w \<in> set white_space" "length w \<le> length s"
    using assms by (auto simp: take_white_end_def find_Some_iff)
  then have "w \<noteq> []"
    using white_space_nonempty by blast
  with w(2) show ?thesis
    by (cases w) auto
qed

function trim_end :: "string \<Rightarrow> string" where
  "trim_end s =
     (case take_white_end s of None \<Rightarrow> s | Some w \<Rightarrow> trim_end (take (length s - length w) s))"
  by pat_completeness auto
termination
  by (relation "measure length") (auto dest: take_white_end_shorter)

declare trim_end.simps [simp del]

definition trim :: "string \<Rightarrow> string" where
  "trim s = trim_end (trim_start s)"

section \<open>contains and split_whitespace\<close>

fun contains :: "string \<Rightarrow> string \<Rightarrow> bool" where
  "contains [] pat \<longleftrightarrow> pat = []"
| "contains (c # s) pat \<longleftrightarrow> take (length pat) (c # s) = pat \<or> contains s pat"

lemma contains_skips: "c \<notin> set p \<Longrightarrow> contains (p @ s) (c # pat) \<longleftrightarrow> contains s (c # pat)"
  by (induction p) auto

text \<open>The word begun so far, and the text still to come.\<close>

function split_whitespace_loop :: "string \<Rightarrow> string \<Rightarrow> string list" where
  "split_whitespace_loop word [] = (if word = [] then [] else [word])"
| "split_whitespace_loop word (c # s) =
     (case take_white (c # s) of
        Some w \<Rightarrow> (if word = [] then [] else [word]) @ split_whitespace_loop [] (drop (length w) (c # s))
      | None \<Rightarrow> split_whitespace_loop (word @ [c]) s)"
  by pat_completeness auto
termination
  by (relation "measure (\<lambda>(word, s). length s)") (auto dest: take_white_shorter)

declare split_whitespace_loop.simps(2) [simp del]

definition split_whitespace :: "string \<Rightarrow> string list" where
  "split_whitespace s = split_whitespace_loop [] s"

text \<open>Visible ASCII is never white space.\<close>

definition visible :: "char \<Rightarrow> bool" where
  "visible c \<longleftrightarrow> 32 < (of_char c :: nat) \<and> (of_char c :: nat) < 128"

lemma white_space_heads:
  "w \<in> set white_space \<Longrightarrow> \<exists>n v. w = char_of n # v \<and> n \<in> {9, 10, 11, 12, 13, 32, 194, 225, 226, 227 :: nat}"
  by (auto simp: white_space_def)

lemma take_white_visible:
  assumes "visible c"
  shows "take_white (c # s) = None"
proof -
  have "take (length w) (c # s) \<noteq> w" if w: "w \<in> set white_space" for w
  proof
    assume eq: "take (length w) (c # s) = w"
    from white_space_heads [OF w] obtain n v where v: "w = char_of n # v"
      and n: "n \<in> {9, 10, 11, 12, 13, 32, 194, 225, 226, 227 :: nat}"
      by blast
    from eq v have "of_char c = (of_char (char_of n :: char) :: nat)"
      by simp
    with assms n show False
      by (auto simp: visible_def of_char_of)
  qed
  then show ?thesis
    by (auto simp: take_white_def find_None_iff)
qed

lemma split_whitespace_word:
  "list_all visible v \<Longrightarrow> split_whitespace_loop word (v @ s) = split_whitespace_loop (word @ v) s"
  by (induction v arbitrary: word) (simp_all add: split_whitespace_loop.simps(2) take_white_visible)

lemma take_white_space: "take_white (CHR '' '' # s) = Some '' ''"
proof -
  have [simp]: "(CHR '' '' = char_of n) = (char_of n = CHR '' '')" for n :: nat
    by (rule eq_commute)
  show ?thesis
    by (simp add: take_white_def white_space_def char_of_eq_iff take_bit_eq_mod)
qed

lemma split_whitespace_space:
  "word \<noteq> [] \<Longrightarrow> split_whitespace_loop word (CHR '' '' # s) = word # split_whitespace_loop [] s"
  by (simp add: split_whitespace_loop.simps(2) take_white_space)

lemma visible_show_nat: "list_all visible (show_nat n)"
proof (induction n rule: show_nat.induct)
  case (1 n)
  have "visible (digit_char d)" if "d < 10" for d
    using that by (simp add: visible_def digit_char_def of_char_of)
  with 1 show ?case
    by (simp add: show_nat.simps [of n])
qed

lemma digits_show_nat: "c \<in> set (show_nat n) \<Longrightarrow> of_char c < (58 :: nat)"
proof (induction n rule: show_nat.induct)
  case (1 n)
  have "of_char (digit_char d) < (58 :: nat)" if "d < 10" for d
    using that by (simp add: digit_char_def of_char_of)
  with 1 show ?case
    by (auto simp: show_nat.simps [of n] split: if_splits)
qed

section \<open>Unsigned integers from text\<close>

datatype int_error = Empty_text | Invalid_digit | Pos_overflow

definition digit_value :: "nat \<Rightarrow> char \<Rightarrow> nat option" where
  "digit_value radix c =
     (let n = of_char c :: nat;
          d = (if 48 \<le> n \<and> n \<le> 57 then n - 48
               else if 97 \<le> n \<and> n \<le> 122 then n - 87
               else if 65 \<le> n \<and> n \<le> 90 then n - 55 else radix)
      in if d < radix then Some d else None)"

fun digits_value :: "nat \<Rightarrow> nat \<Rightarrow> nat \<Rightarrow> string \<Rightarrow> int_error + nat" where
  "digits_value bound radix acc [] = Inr acc"
| "digits_value bound radix acc (c # cs) =
     (case digit_value radix c of
        None \<Rightarrow> Inl Invalid_digit
      | Some d \<Rightarrow>
          if bound \<le> acc * radix + d then Inl Pos_overflow
          else digits_value bound radix (acc * radix + d) cs)"

text \<open>\<open>bound\<close> is one more than the largest value; a single leading \<open>+\<close> is accepted, \<open>-\<close> is not.\<close>

definition from_str_radix :: "nat \<Rightarrow> nat \<Rightarrow> string \<Rightarrow> int_error + nat" where
  "from_str_radix bound radix s =
     (case s of
        [] \<Rightarrow> Inl Empty_text
      | c # cs \<Rightarrow>
          if c = CHR ''+'' \<and> cs \<noteq> [] then digits_value bound radix 0 cs
          else digits_value bound radix 0 s)"

definition parse_u16 :: "string \<Rightarrow> int_error + nat" where
  "parse_u16 s = from_str_radix (2 ^ 16) 10 s"

definition parse_u64 :: "string \<Rightarrow> int_error + nat" where
  "parse_u64 s = from_str_radix (2 ^ 64) 10 s"

section \<open>Hexadecimal\<close>

definition hex_digit :: "nat \<Rightarrow> char" where
  "hex_digit d = char_of (if d < 10 then 48 + d else 87 + d)"

definition HEX_digit :: "nat \<Rightarrow> char" where
  "HEX_digit d = char_of (if d < 10 then 48 + d else 55 + d)"

lemma of_char_hex_digit: "d < 16 \<Longrightarrow> of_char (hex_digit d) = (if d < 10 then 48 + d else 87 + d)"
  by (simp add: hex_digit_def of_char_of)

lemma digit_value_hex_digit [simp]: "d < 16 \<Longrightarrow> digit_value 16 (hex_digit d) = Some d"
  by (simp add: digit_value_def of_char_hex_digit Let_def)

lemma hex_digit_ascii: "d < 16 \<Longrightarrow> of_char (hex_digit d) < (128 :: nat)"
  by (simp add: of_char_hex_digit)

lemma hex_digit_not_plus: "d < 16 \<Longrightarrow> hex_digit d \<noteq> CHR ''+''"
proof
  assume "d < 16" and plus: "hex_digit d = CHR ''+''"
  have "of_char (CHR ''+'') = (43 :: nat)"
    by simp
  with plus of_char_hex_digit [OF \<open>d < 16\<close>] show False
    by (simp split: if_splits)
qed

text \<open>The loop of \<open>decode_hex\<close>: \<open>n\<close> pairs are left, from index \<open>i\<close>; the first error ends it.\<close>

fun hex_pairs :: "string \<Rightarrow> nat \<Rightarrow> nat \<Rightarrow> (int_error + bytes) rust" where
  "hex_pairs s i 0 = Ret (Inr [])"
| "hex_pairs s i (Suc n) =
     rust_bind (str_slice s i (i + 2)) (\<lambda>pair.
       case from_str_radix 256 16 pair of
         Inl e \<Rightarrow> Ret (Inl e)
       | Inr b \<Rightarrow>
           rust_bind (hex_pairs s (i + 2) n) (\<lambda>r. Ret (map_sum id (Cons (of_nat b)) r)))"

definition encode_hex :: "bytes \<Rightarrow> string" where
  "encode_hex bs = concat (map (\<lambda>b. [hex_digit (unat b div 16), hex_digit (unat b mod 16)]) bs)"

lemma length_encode_hex [simp]: "length (encode_hex bs) = 2 * length bs"
  by (induction bs) (simp_all add: encode_hex_def)

lemma byte_bound: "unat (b :: u8) < 256"
  using unsigned_less [of b] by simp

lemma nibbles: "unat (b :: u8) div 16 < 16" "unat b mod 16 < 16"
  using byte_bound [of b] by auto

lemma from_str_radix_pair:
  "from_str_radix 256 16 [hex_digit (unat (b :: u8) div 16), hex_digit (unat b mod 16)] = Inr (unat b)"
  using hex_digit_not_plus [OF nibbles(1) [of b]] nibbles [of b] byte_bound [of b]
  by (simp add: from_str_radix_def)

lemma encode_hex_ascii: "c \<in> set (encode_hex bs) \<Longrightarrow> of_char c < (128 :: nat)"
  by (auto simp: encode_hex_def hex_digit_ascii nibbles)

lemma ascii_boundary:
  "(\<And>c. c \<in> set s \<Longrightarrow> of_char c < (128 :: nat)) \<Longrightarrow> i \<le> length s \<Longrightarrow> char_boundary s i"
  by (auto simp: char_boundary_def le_less)

lemma hex_pairs_encode:
  "hex_pairs (encode_hex (done @ bs)) (2 * length done) (length bs) = Ret (Inr bs)"
proof (induction bs arbitrary: "done")
  case (Cons b bs)
  let ?s = "encode_hex (done @ b # bs)"
  have "char_boundary ?s i" if "i \<le> length ?s" for i
    using encode_hex_ascii that by (rule ascii_boundary)
  moreover have "take 2 (drop (2 * length done) ?s) = [hex_digit (unat b div 16), hex_digit (unat b mod 16)]"
    by (simp add: encode_hex_def flip: length_encode_hex)
  ultimately have "str_slice ?s (2 * length done) (2 * length done + 2)
      = Ret [hex_digit (unat b div 16), hex_digit (unat b mod 16)]"
    by (simp add: str_slice_def)
  with Cons [of "done @ [b]"] show ?case
    by (simp add: from_str_radix_pair)
qed simp

section \<open>Decimal numbers are read as printed\<close>

lemma digit_value_digit_char: "d < 10 \<Longrightarrow> digit_value 10 (digit_char d) = Some d"
  by (simp add: digit_value_def digit_char_def of_char_of)

lemma digits_value_show_nat:
  "n < bound \<Longrightarrow> digits_value bound 10 0 (show_nat n @ s) = digits_value bound 10 n s"
proof (induction n arbitrary: s rule: show_nat.induct)
  case (1 n)
  show ?case
  proof (cases "n < 10")
    case True
    with "1.prems" show ?thesis
      by (simp add: show_nat.simps [of n] digit_value_digit_char)
  next
    case False
    with "1.prems" have "n div 10 < bound" "n div 10 * 10 + n mod 10 < bound"
      by (auto simp: div_less_dividend less_trans)
    with "1.IH" [OF False] False show ?thesis
      by (simp add: show_nat.simps [of n] digit_value_digit_char)
  qed
qed

lemma show_nat_inject: "show_nat m = show_nat n \<longleftrightarrow> m = n"
proof
  assume eq: "show_nat m = show_nat n"
  have "digits_value (Suc (m + n)) 10 0 (show_nat m @ []) = Inr m"
    by (subst digits_value_show_nat) simp_all
  moreover have "digits_value (Suc (m + n)) 10 0 (show_nat n @ []) = Inr n"
    by (subst digits_value_show_nat) simp_all
  ultimately show "m = n"
    using eq by simp
qed simp

lemma from_str_radix_show_nat:
  assumes "n < bound"
  shows "from_str_radix bound 10 (show_nat n) = Inr n"
proof (cases "show_nat n")
  case Nil
  then show ?thesis
    by (simp add: show_nat.simps [of n] split: if_splits)
next
  case (Cons c cs)
  then have "c \<in> set (show_nat n)"
    by simp
  then have "48 \<le> (of_char c :: nat)"
  proof (induction n rule: show_nat.induct)
    case (1 n)
    then show ?case
      by (auto simp: show_nat.simps [of n] digit_char_def of_char_of split: if_splits)
  qed
  then have "c \<noteq> CHR ''+''"
    by auto
  with Cons digits_value_show_nat [OF assms, of "[]"] show ?thesis
    by (simp add: from_str_radix_def)
qed

section \<open>Visible text has nothing to trim\<close>

lemma white_space_invisible:
  assumes "w \<in> set white_space" and "list_all visible s"
  shows "\<not> set w \<subseteq> set s"
proof
  assume "set w \<subseteq> set s"
  moreover obtain n :: nat and v where w: "w = char_of n # v"
    and n: "n \<in> {9, 10, 11, 12, 13, 32, 194, 225, 226, 227}"
    using white_space_heads [OF assms(1)] by blast
  ultimately have "visible (char_of n)"
    using assms(2) by (simp add: list_all_iff)
  with n show False
    by (auto simp: visible_def of_char_of)
qed

lemma trim_visible:
  assumes "list_all visible s"
  shows "trim s = s"
proof -
  have "take (length w) s \<noteq> w" "drop (length s - length w) s \<noteq> w" if "w \<in> set white_space" for w
    using white_space_invisible [OF that assms] set_take_subset [of "length w" s]
      set_drop_subset [of "length s - length w" s] by auto
  then have "take_white s = None" "take_white_end s = None"
    by (auto simp: take_white_def take_white_end_def find_None_iff)
  then show ?thesis
    by (simp add: trim_def trim_start.simps [of s] trim_end.simps [of s])
qed

lemma visible_encode_hex: "list_all visible (encode_hex bs)"
proof -
  have "visible (hex_digit d)" if "d < 16" for d
    using that by (simp add: visible_def of_char_hex_digit)
  then show ?thesis
    by (auto simp: encode_hex_def list_all_iff nibbles)
qed

end
