(* ===== verification/Gateway.thy ===== *)
theory Gateway
  imports Proxy Rust_Text
begin

text \<open>
  The gateway program (\<open>src/src/bin/gateway.rs\<close>): its environment, the certificate, the choice of the
  listener, and \<open>decode_hex\<close>. The environment is a map of the variables that are set and are UTF-8;
  \<open>parse_addr\<close> is \<open>SocketAddr::from_str\<close>.

  The lemmas: \<open>decode_hex\<close> in closed form on what \<open>encode_hex\<close> writes.
\<close>

section \<open>decode_hex\<close>

definition show_int_error :: "int_error \<Rightarrow> string" where
  "show_int_error e =
     (case e of
        Empty_text \<Rightarrow> ''cannot parse integer from empty string''
      | Invalid_digit \<Rightarrow> ''invalid digit found in string''
      | Pos_overflow \<Rightarrow> ''number too large to fit in target type'')"

definition decode_hex :: "string \<Rightarrow> (anyhow + bytes) rust" where
  "decode_hex s =
     (if \<not> even (length s) then Ret (Inl [''QUIC_OBF_PSK hex must have even length''])
      else
        rust_bind (hex_pairs s 0 (length s div 2)) (\<lambda>r.
        Ret (map_sum (\<lambda>e. [''QUIC_OBF_PSK invalid hex: '' @ show_int_error e]) id r)))"

section \<open>main\<close>

record gateway_settings =
  gw_bind :: socket_addr
  gw_upstream :: string
  gw_san :: string
  gw_cert_path :: path
  gw_key_path :: path

definition var_or :: "(string \<rightharpoonup> string) \<Rightarrow> string \<Rightarrow> string \<Rightarrow> string" where
  "var_or env name default_value = (case env name of Some v \<Rightarrow> v | None \<Rightarrow> default_value)"

definition gateway_settings_of ::
  "(string \<rightharpoonup> string) \<Rightarrow> (string \<Rightarrow> socket_addr option) \<Rightarrow> gateway_settings" where
  "gateway_settings_of env parse_addr =
     \<lparr>gw_bind = (case Option.bind (env ''QUIC_BIND'') parse_addr of
         Some a \<Rightarrow> a | None \<Rightarrow> Addr_v4 0 443),
      gw_upstream = var_or env ''QUIC_UPSTREAM'' ''envoy:8080'',
      gw_san = var_or env ''QUIC_SAN'' ''localhost'',
      gw_cert_path = var_or env ''QUIC_CERT_PATH'' ''server-cert.der'',
      gw_key_path = var_or env ''QUIC_KEY_PATH'' ''server-key.der''\<rparr>"

text \<open>\<open>filter\<close>, \<open>map\<close> and \<open>transpose\<close> of the optional key.\<close>

definition obf_psk_of :: "(string \<rightharpoonup> string) \<Rightarrow> (anyhow + bytes option) rust" where
  "obf_psk_of env =
     (case env ''QUIC_OBF_PSK'' of
        None \<Rightarrow> Ret (Inr None)
      | Some s \<Rightarrow>
          if trim s = [] then Ret (Inr None)
          else rust_bind (decode_hex (trim s)) (\<lambda>r. Ret (map_sum id Some r)))"

text \<open>The running listener, or the error; afterwards the program waits for the accept task.\<close>

definition gateway_main ::
  "('i, 'm, 'z) quinn_defaults \<Rightarrow> tls_checks \<Rightarrow> fs_answers \<Rightarrow> (string list \<Rightarrow> anyhow + (bytes \<times> bytes))
     \<Rightarrow> (string \<rightharpoonup> string) \<Rightarrow> (string \<Rightarrow> socket_addr option) \<Rightarrow> proxy_env \<Rightarrow> files
     \<Rightarrow> ((anyhow + ('i, 'm, 'z) transport_config_scheme server_config proxy_handle) \<times> files) rust" where
  "gateway_main q ck fa rcgen env parse_addr px fs =
     (let st = gateway_settings_of env parse_addr in
      case load_or_generate fa rcgen [gw_san st] (gw_cert_path st) (gw_key_path st) fs of
        (Inl e, fs') \<Rightarrow> Ret (Inl e, fs')
      | (Inr bundle, fs') \<Rightarrow>
          rust_bind (obf_psk_of env) (\<lambda>psk.
          case psk of
            Inl e \<Rightarrow> Ret (Inl e, fs')
          | Inr (Some key) \<Rightarrow>
              Ret (serve_obfuscated q ck px bundle (gw_bind st) (gw_upstream st) key, fs')
          | Inr None \<Rightarrow>
              (case server_config q ck bundle of
                 Inl e \<Rightarrow> Ret (Inl e, fs')
               | Inr cfg \<Rightarrow> Ret (serve px cfg (gw_bind st) (gw_upstream st), fs'))))"

section \<open>Properties\<close>

text \<open>
  The key in \<open>QUIC_OBF_PSK\<close> is read as written: the hexadecimal text of any bytes decodes to those
  bytes. It is read leniently too: a pair may be a plus sign and one digit; and a text with a
  character of three bytes makes the program panic instead of reporting an error.
\<close>

theorem decode_hex_reads_what_was_written:
  "decode_hex (encode_hex bs) = Ret (Inr bs)
   \<and> decode_hex ''+f'' = Ret (Inr [15])
   \<and> decode_hex (map char_of [226, 130, 172, 97 :: nat]) = Panic"
proof (intro conjI)
  show "decode_hex (encode_hex bs) = Ret (Inr bs)"
    using hex_pairs_encode [of "[]" bs] by (simp add: decode_hex_def)
  show "decode_hex ''+f'' = Ret (Inr [15])"
    by (simp add: decode_hex_def str_slice_def char_boundary_def from_str_radix_def digit_value_def)
  show "decode_hex (map char_of [226, 130, 172, 97 :: nat]) = Panic"
    by (simp add: decode_hex_def str_slice_def char_boundary_def)
qed

lemma obf_psk_of_hex:
  assumes "env ''QUIC_OBF_PSK'' = Some (encode_hex psk)" and "psk \<noteq> []"
  shows "obf_psk_of env = Ret (Inr (Some psk))"
proof -
  have "encode_hex psk \<noteq> []"
    using assms(2) by (cases psk) (simp_all add: encode_hex_def)
  then show ?thesis
    using assms(1) hex_pairs_encode [of "[]" psk]
    by (simp add: obf_psk_of_def trim_visible visible_encode_hex decode_hex_def)
qed

text \<open>What a listener is: on which socket it runs, with which configuration, and at which address.\<close>

lemma gateway_listens:
  assumes "gateway_main q ck fa rcgen env parse_addr px fs = Ret (Inr h, fs')"
    and "obf_psk_of env = Ret (Inr psk)"
  shows "se_bind (ph_endpoint h) = gw_bind (gateway_settings_of env parse_addr)
    \<and> (\<exists>bundle. load_or_generate fa rcgen [gw_san (gateway_settings_of env parse_addr)]
            (gw_cert_path (gateway_settings_of env parse_addr)) (gw_key_path (gateway_settings_of env parse_addr)) fs
          = (Inr bundle, fs')
        \<and> (case psk of
             None \<Rightarrow> se_socket (ph_endpoint h) = Quinn_socket
               \<and> (\<exists>cfg. server_config q ck bundle = Inr cfg \<and> se_config (ph_endpoint h) = Some cfg)
           | Some key \<Rightarrow> (\<exists>base. se_socket (ph_endpoint h)
                   = Own_socket \<lparr>cs_obf = Some (salamander_new key), cs_base = base\<rparr>)
               \<and> (\<exists>cfg. server_config_obf q ck bundle = Inr cfg \<and> se_config (ph_endpoint h) = Some cfg)))"
proof -
  let ?st = "gateway_settings_of env parse_addr"
  obtain b where loaded: "load_or_generate fa rcgen [gw_san ?st] (gw_cert_path ?st) (gw_key_path ?st) fs
      = (Inr b, fs')"
    using assms by (cases psk) (auto simp: gateway_main_def Let_def split: prod.splits sum.splits)
  show ?thesis
  proof (cases psk)
    case None
    with assms loaded obtain cfg where "server_config q ck b = Inr cfg"
      "serve px cfg (gw_bind ?st) (gw_upstream ?st) = Inr h"
      by (auto simp: gateway_main_def Let_def split: sum.splits)
    with loaded None serve_eq [of px cfg "gw_bind ?st" "gw_upstream ?st" h] show ?thesis
      by auto
  next
    case (Some key)
    with assms loaded have "serve_obfuscated q ck px b (gw_bind ?st) (gw_upstream ?st) key = Inr h"
      by (simp add: gateway_main_def Let_def)
    from serve_obfuscated_eq [OF this] loaded Some show ?thesis
      by auto
  qed
qed

lemma gateway_reads_key:
  assumes "gateway_main q ck fa rcgen env parse_addr px fs = Ret (Inr h, fs')"
  shows "\<exists>psk. obf_psk_of env = Ret (Inr psk)"
proof -
  obtain x where x: "obf_psk_of env = Ret x"
    using assms by (cases "obf_psk_of env") (auto simp: gateway_main_def Let_def split: prod.splits sum.splits)
  with assms show ?thesis
    by (cases x) (auto simp: gateway_main_def Let_def split: prod.splits sum.splits)
qed

lemma map_sum_eq_Inr [simp]: "map_sum f g x = Inr y \<longleftrightarrow> (\<exists>z. x = Inr z \<and> y = g z)"
  by (cases x) auto

text \<open>
  C18: The gateway fails closed. When \<open>QUIC_OBF_PSK\<close> holds anything but white space, whatever it is, no
  endpoint on a plain socket ever listens: the listener runs on the socket that obfuscates under exactly
  the decoded key, with the settings that leave room for the salt, or there is none; and when the
  variable is unset or blank it runs on quinn's own socket. Either way it listens at the configured
  address, and the certificate it serves is the one just loaded or stored.
\<close>

theorem a_set_key_never_serves_plain_quic:
  assumes "gateway_main q ck fa rcgen env parse_addr px fs = Ret (Inr h, fs')"
  shows "se_bind (ph_endpoint h) = gw_bind (gateway_settings_of env parse_addr)
    \<and> (\<exists>bundle cfg. se_config (ph_endpoint h) = Some cfg
        \<and> fst (load_or_generate fa rcgen [gw_san (gateway_settings_of env parse_addr)]
            (gw_cert_path (gateway_settings_of env parse_addr)) (gw_key_path (gateway_settings_of env parse_addr)) fs)
          = Inr bundle
        \<and> (case se_socket (ph_endpoint h) of
             Quinn_socket \<Rightarrow> server_config q ck bundle = Inr cfg
               \<and> (case env ''QUIC_OBF_PSK'' of None \<Rightarrow> True | Some s \<Rightarrow> trim s = [])
           | Own_socket cs \<Rightarrow> server_config_obf q ck bundle = Inr cfg
               \<and> (case env ''QUIC_OBF_PSK'' of
                    None \<Rightarrow> False
                  | Some s \<Rightarrow> trim s \<noteq> []
                      \<and> (\<exists>key. decode_hex (trim s) = Ret (Inr key) \<and> cs_obf cs = Some (salamander_new key)))))"
proof -
  obtain psk where psk: "obf_psk_of env = Ret (Inr psk)"
    using gateway_reads_key [OF assms] by blast
  show ?thesis
    using gateway_listens [OF assms psk] psk
    by (cases psk) (auto simp: obf_psk_of_def rust_bind_eq_Ret split: option.splits if_splits sum.splits)
qed

text \<open>A file system without files that takes every write, and listeners that start.\<close>

definition sample_fs :: fs_answers where
  "sample_fs = \<lparr>fa_read = \<lambda>_. None, fa_write = \<lambda>_ _. Written, fa_show = \<lambda>_. ''io''\<rparr>"

definition sample_proxy_env :: proxy_env where
  "sample_proxy_env = \<lparr>px_net = sample_server_net, px_incoming = [], px_uri_ok = (\<lambda>_. None)\<rparr>"

lemma sample_gateway:
  assumes "psk \<noteq> []"
  shows "\<exists>h fs'. gateway_main sample_quinn sample_checks sample_fs (\<lambda>_. Inr ([1], [2]))
      [''QUIC_OBF_PSK'' \<mapsto> encode_hex psk] (\<lambda>_. None) sample_proxy_env Map.empty = Ret (Inr h, fs')"
proof -
  have "obf_psk_of [''QUIC_OBF_PSK'' \<mapsto> encode_hex psk] = Ret (Inr (Some psk))"
    using obf_psk_of_hex [OF _ assms] by simp
  then show ?thesis
    by (simp add: gateway_main_def gateway_settings_of_def var_or_def load_or_generate_def self_signed_def
        fs_write_def sample_fs_def serve_obfuscated_def serve_on_endpoint_def sample_proxy_env_def
        server_config_obf_def with_transport_def server_config_tuned_def obf_transport_config_def
        sample_quinn_def sample_checks_def Let_def anyhow_io_def obfuscated_endpoint_server_def
        obfuscated_server_endpoint_def obfuscated_endpoint_def abstract_endpoint_def client_socket_def
        sample_server_net_def)
qed

theorem a_set_key_never_serves_plain_quic_witness:
  "\<exists>h fs' cs. gateway_main sample_quinn sample_checks sample_fs (\<lambda>_. Inr ([1], [2]))
      [''QUIC_OBF_PSK'' \<mapsto> encode_hex [10]] (\<lambda>_. None) sample_proxy_env Map.empty = Ret (Inr h, fs')
    \<and> se_socket (ph_endpoint h) = Own_socket cs \<and> cs_obf cs = Some (salamander_new [10])"
proof -
  let ?env = "[''QUIC_OBF_PSK'' \<mapsto> encode_hex [10]]"
  obtain h fs' where run: "gateway_main sample_quinn sample_checks sample_fs (\<lambda>_. Inr ([1], [2])) ?env
      (\<lambda>_. None) sample_proxy_env Map.empty = Ret (Inr h, fs')"
    using sample_gateway [of "[10]"] by auto
  have "decode_hex (encode_hex [10]) = Ret (Inr [10])"
    using hex_pairs_encode [of "[]" "[10]"] by (simp add: decode_hex_def)
  moreover have "trim (encode_hex [10]) = encode_hex [10]"
    by (simp only: trim_visible [OF visible_encode_hex])
  moreover have "encode_hex [10] \<noteq> []"
    by (simp add: encode_hex_def)
  ultimately have hex: "trim (encode_hex [10]) = encode_hex [10]" "encode_hex [10] \<noteq> []"
    "decode_hex (encode_hex [10]) = Ret (Inr [10])"
    by blast+
  from a_set_key_never_serves_plain_quic [OF run] hex run show ?thesis
    by (cases "se_socket (ph_endpoint h)") auto
qed

end
