(* ===== verification/Udpcheck.thy ===== *)
theory Udpcheck
  imports Client_Connect Gateway
begin

text \<open>
  The reachability check (\<open>src/src/bin/udpcheck.rs\<close>): its arguments, the verifier that only pins, one
  QUIC attempt with the hold loop, and the verdict with the exit status. What is printed is the verdict,
  a datatype with one constructor per text; \<open>verdict\<close> is the decision tree of \<open>main\<close>.

  Dashes the program prints as U+2014 are written as hyphens.

  The lemmas: the hold loop is its first decisive look; an attempt that reports a connection has had its
  handshake completed under the verifier's verdict (\<open>try_quic_reports\<close>).
\<close>

section \<open>Constants and arguments\<close>

definition CONTROL_HOST :: string where "CONTROL_HOST = ''cloudflare-quic.com''"

definition CONTROL_PORT :: nat where "CONTROL_PORT = 443"

definition DEFAULT_OURS_HOST :: string where "DEFAULT_OURS_HOST = ''quic.konstruct.cc''"

definition DEFAULT_OURS_PORT :: nat where "DEFAULT_OURS_PORT = 443"

definition UDPCHECK_HANDSHAKE_TIMEOUT :: duration where "UDPCHECK_HANDSHAKE_TIMEOUT = from_secs 8"

definition check_decode_hex :: "string \<Rightarrow> (anyhow + bytes) rust" where
  "check_decode_hex s =
     (if \<not> even (length s) then Ret (Inl [''hex PSK must have even length''])
      else
        rust_bind (hex_pairs s 0 (length s div 2)) (\<lambda>r.
        Ret (map_sum (\<lambda>e. [''invalid hex: '' @ show_int_error e]) id r)))"

record check_args =
  ca_hold_secs :: nat
  ca_pin_path :: "string option"
  ca_sni :: "string option"
  ca_psk :: "bytes option"
  ca_positional :: "string list"

definition no_args :: check_args where
  "no_args = \<lparr>ca_hold_secs = 0, ca_pin_path = None, ca_sni = None, ca_psk = None, ca_positional = []\<rparr>"

fun parse_args :: "string list \<Rightarrow> check_args \<Rightarrow> (anyhow + check_args) rust" where
  "parse_args [] st = Ret (Inr st)"
| "parse_args (a # it) st =
     (if a = ''--hold'' then
        (case it of
           [] \<Rightarrow> Ret (Inl [''--hold needs a number of seconds''])
         | v # it' \<Rightarrow>
             (case parse_u64 v of
                Inl e \<Rightarrow> Ret (Inl [''invalid --hold value'', show_int_error e])
              | Inr n \<Rightarrow> parse_args it' (st\<lparr>ca_hold_secs := n\<rparr>)))
      else if a = ''--pin'' then
        (case it of
           [] \<Rightarrow> Ret (Inl [''--pin needs a path to a cert.der''])
         | v # it' \<Rightarrow> parse_args it' (st\<lparr>ca_pin_path := Some v\<rparr>))
      else if a = ''--sni'' then
        (case it of
           [] \<Rightarrow> Ret (Inl [''--sni needs a server name''])
         | v # it' \<Rightarrow> parse_args it' (st\<lparr>ca_sni := Some v\<rparr>))
      else if a = ''--psk'' then
        (case it of
           [] \<Rightarrow> Ret (Inl [''--psk needs a hex PSK''])
         | v # it' \<Rightarrow>
             rust_bind (check_decode_hex v) (\<lambda>r.
             case r of
               Inl e \<Rightarrow> Ret (Inl (context_of ''invalid --psk hex'' e))
             | Inr key \<Rightarrow> parse_args it' (st\<lparr>ca_psk := Some key\<rparr>)))
      else if a = ''--'' then parse_args it st
      else parse_args it (st\<lparr>ca_positional := ca_positional st @ [a]\<rparr>))"

definition ours_of :: "check_args \<Rightarrow> anyhow + (string \<times> nat)" where
  "ours_of st =
     (let host = (case ca_positional st of [] \<Rightarrow> DEFAULT_OURS_HOST | h # _ \<Rightarrow> h) in
      case ca_positional st of
        _ # p # _ \<Rightarrow>
          (case parse_u16 p of
             Inl e \<Rightarrow> Inl [''invalid port'', show_int_error e]
           | Inr port \<Rightarrow> Inr (host, port))
      | _ \<Rightarrow> Inr (host, DEFAULT_OURS_PORT))"

section \<open>The verifier\<close>

fun hex_fp :: "bytes \<Rightarrow> string" where
  "hex_fp bs = join_with '':'' (map (\<lambda>b. [HEX_digit (unat b div 16), HEX_digit (unat b mod 16)]) bs)"

text \<open>The verdict on a leaf certificate, and the fingerprint it leaves behind; \<open>sha256\<close> is ring's.\<close>

definition verify_server_cert ::
  "(bytes \<Rightarrow> bytes) \<Rightarrow> bytes option \<Rightarrow> bytes \<Rightarrow> (string + unit) \<times> string option" where
  "verify_server_cert sha256 pin end_entity =
     (let seen_fp = Some (hex_fp (sha256 end_entity)) in
      case pin of
        Some p \<Rightarrow>
          if end_entity \<noteq> p then
            (Inl ''pinned cert mismatch - gateway cert differs from the bundled quic_gateway.der'', seen_fp)
          else (Inr (), seen_fp)
      | None \<Rightarrow> (Inr (), seen_fp))"

text \<open>
  The signature checks hand over to rustls with the algorithms \<open>algs\<close> of the provider: accepting any
  certificate does not mean accepting a peer that does not hold its key.
\<close>

type_synonym 'a signature_check = "bytes \<Rightarrow> bytes \<Rightarrow> bytes \<Rightarrow> 'a \<Rightarrow> string + unit"

definition verify_tls12_signature :: "'a signature_check \<Rightarrow> 'a \<Rightarrow> bytes \<Rightarrow> bytes \<Rightarrow> bytes \<Rightarrow> string + unit" where
  "verify_tls12_signature rustls12 algs message cert dss = rustls12 message cert dss algs"

definition verify_tls13_signature :: "'a signature_check \<Rightarrow> 'a \<Rightarrow> bytes \<Rightarrow> bytes \<Rightarrow> bytes \<Rightarrow> string + unit" where
  "verify_tls13_signature rustls13 algs message cert dss = rustls13 message cert dss algs"

definition supported_verify_schemes :: "('a \<Rightarrow> 'scheme list) \<Rightarrow> 'a \<Rightarrow> 'scheme list" where
  "supported_verify_schemes supported_schemes algs = supported_schemes algs"

text \<open>\<open>try_into().unwrap()\<close> panics where quinn refuses the idle timeout.\<close>

definition check_transport_config ::
  "('i, 'm, 'z) quinn_defaults \<Rightarrow> bool \<Rightarrow> ('i, 'm, 'z) transport_config_scheme rust" where
  "check_transport_config q obf =
     (let tc = (qd_transport q)\<lparr>tc_keep_alive := Some (from_secs 5)\<rparr> in
      case qd_idle q (from_secs 30) of
        Inl e \<Rightarrow> Panic
      | Inr idle \<Rightarrow>
          (let tc1 = tc\<lparr>tc_max_idle := Some idle\<rparr> in
           Ret (if obf then tc1\<lparr>tc_mtu_discovery :=
                  Some ((qd_mtu q)\<lparr>md_upper_bound := 1452 - of_nat SALT_LEN\<rparr>)\<rparr> else tc1)))"

text \<open>\<open>versions\<close> and \<open>quic\<close> are what rustls and quinn refuse; the verifier accepts whom the pin allows.\<close>

record 't check_config =
  kc_pin :: "bytes option"
  kc_alpn :: "string list"
  kc_transport :: 't

definition check_client_config ::
  "('i, 'm, 'z) quinn_defaults \<Rightarrow> anyhow option \<Rightarrow> anyhow option \<Rightarrow> bytes option \<Rightarrow> bool
     \<Rightarrow> (anyhow + ('i, 'm, 'z) transport_config_scheme check_config) rust" where
  "check_client_config q versions quic pin obf =
     (case versions of
        Some e \<Rightarrow> Ret (Inl e)
      | None \<Rightarrow>
          (case quic of
             Some e \<Rightarrow> Ret (Inl (context_of ''build QUIC client config'' e))
           | None \<Rightarrow>
               rust_bind (check_transport_config q obf) (\<lambda>transport.
               Ret (Inr \<lparr>kc_pin = pin, kc_alpn = [''h3''], kc_transport = transport\<rparr>))))"

section \<open>One attempt\<close>

datatype probe =
    Probe_fail string
  | Probe_ok duration "string option"
  | Probe_throttled duration duration string "string option"

text \<open>A look of the hold loop: the close reason and the time since the loop began.\<close>

type_synonym hold_look = "string option \<times> duration"

partial_function (option) hold_loop ::
  "(nat \<Rightarrow> hold_look) \<Rightarrow> duration \<Rightarrow> nat \<Rightarrow> (duration \<times> string) option option" where
  "hold_loop looks hold i =
     (case fst (looks i) of
        Some reason \<Rightarrow> Some (Some (snd (looks i), reason))
      | None \<Rightarrow> if hold \<le> snd (looks i) then Some None else hold_loop looks hold (i + 1))"

text \<open>
  What the outside answers to an attempt: the resolver, the set-up of the configuration, the socket
  (plain or obfuscated), \<open>connect\<close>, the handshake within its timeout, given the verdicts on the leaf
  certificate \<open>aa_leaf\<close> the server presents and on its signature \<open>aa_signature\<close> of the transcript
  \<open>aa_transcript\<close>, and then the connection. \<open>aa_rustls\<close> is rustls's check of a signature. QUIC speaks
  TLS 1.3 only.
\<close>

record attempt_answers =
  aa_resolve :: "anyhow + socket_addr list"
  aa_versions :: "anyhow option"
  aa_quic :: "anyhow option"
  aa_algorithms :: "string list"
  aa_runtime :: bool
  aa_bind :: "socket_addr \<Rightarrow> spin_socket io_result"
  aa_new_endpoint :: "client_sock \<Rightarrow> unit io_result"
  aa_plain :: "socket_addr \<Rightarrow> anyhow option"
  aa_show_io :: "io_error \<Rightarrow> string"
  aa_connect :: "client_sock option \<Rightarrow> socket_addr \<Rightarrow> string \<Rightarrow> anyhow option"
  aa_leaf :: bytes
  aa_transcript :: bytes
  aa_signature :: bytes
  aa_rustls :: "string list signature_check"
  aa_handshake :: "string + unit \<Rightarrow> string + unit \<Rightarrow> duration \<Rightarrow> handshake_answer"
  aa_rtt :: duration
  aa_looks :: "nat \<Rightarrow> hold_look"

text \<open>The endpoint: with a key the obfuscated one, and its socket; otherwise quinn's own.\<close>

definition check_endpoint ::
  "attempt_answers \<Rightarrow> socket_addr \<Rightarrow> bytes option \<Rightarrow> anyhow + client_sock option" where
  "check_endpoint aa addr psk =
     (case psk of
        Some key \<Rightarrow>
          (case obfuscated_client_endpoint (if aa_runtime aa then Some () else None) (aa_bind aa addr)
                  (\<lambda>(_ :: unit option) socket _. map_sum id (\<lambda>_. socket) (aa_new_endpoint aa socket))
                  (salamander_new key) of
             Inl e \<Rightarrow> Inl (context_of ''bind Salamander-obfuscated client endpoint'' [aa_show_io aa e])
           | Inr socket \<Rightarrow> Inr (Some socket))
      | None \<Rightarrow> (case aa_plain aa addr of Some e \<Rightarrow> Inl e | None \<Rightarrow> Inr None))"

definition try_quic_inner ::
  "('i, 'm, 'z) quinn_defaults \<Rightarrow> (bytes \<Rightarrow> bytes) \<Rightarrow> attempt_answers \<Rightarrow> string \<Rightarrow> string \<Rightarrow> bytes option
     \<Rightarrow> duration \<Rightarrow> string option \<Rightarrow> bytes option \<Rightarrow> (anyhow + probe) option rust" where
  "try_quic_inner q sha256 aa host host_port pin hold sni psk =
     (case aa_resolve aa of
        Inl e \<Rightarrow> Ret (Some (Inl (context_of (''DNS resolve '' @ host_port) e)))
      | Inr [] \<Rightarrow> Ret (Some (Inl [''no address for '' @ host_port]))
      | Inr (addr # _) \<Rightarrow>
     (let bind = (if \<not> is_ipv4 addr then Addr_v6 0 0 0 0 else Addr_v4 0 0) in
      rust_bind (check_client_config q (aa_versions aa) (aa_quic aa) pin (psk \<noteq> None)) (\<lambda>config.
      Ret (case config of
             Inl e \<Rightarrow> Some (Inl e)
           | Inr cfg \<Rightarrow>
          (case check_endpoint aa bind psk of
             Inl e \<Rightarrow> Some (Inl e)
           | Inr socket \<Rightarrow>
          (let server_name = (case sni of Some s \<Rightarrow> s | None \<Rightarrow> host) in
           case aa_connect aa socket addr server_name of
             Some e \<Rightarrow> Some (Inl e)
           | None \<Rightarrow>
          (let (verified, fp) = verify_server_cert sha256 (kc_pin cfg) (aa_leaf aa);
               signed = verify_tls13_signature (aa_rustls aa) (aa_algorithms aa) (aa_transcript aa)
                          (aa_leaf aa) (aa_signature aa) in
           case aa_handshake aa verified signed UDPCHECK_HANDSHAKE_TIMEOUT of
             Handshake_elapsed \<Rightarrow>
               Some (Inl (context_of
                 ''QUIC handshake timed out - UDP/443 is filtered or throttled on this path'' elapsed_error))
           | Handshake_failed e \<Rightarrow> Some (Inl e)
           | Handshake_done \<Rightarrow>
               if hold = 0 then Some (Inr (Probe_ok (aa_rtt aa) fp))
               else (case hold_loop (aa_looks aa) hold 0 of
                       None \<Rightarrow> None
                     | Some (Some (died_after, reason)) \<Rightarrow>
                         Some (Inr (Probe_throttled (aa_rtt aa) died_after reason fp))
                     | Some None \<Rightarrow> Some (Inr (Probe_ok (aa_rtt aa) fp))))))))))"

text \<open>\<open>{e}\<close> prints the outermost message.\<close>

definition try_quic ::
  "('i, 'm, 'z) quinn_defaults \<Rightarrow> (bytes \<Rightarrow> bytes) \<Rightarrow> attempt_answers \<Rightarrow> string \<Rightarrow> string \<Rightarrow> bytes option
     \<Rightarrow> duration \<Rightarrow> string option \<Rightarrow> bytes option \<Rightarrow> probe option rust" where
  "try_quic q sha256 aa host host_port pin hold sni psk =
     rust_bind (try_quic_inner q sha256 aa host host_port pin hold sni psk) (\<lambda>r.
     Ret (case r of
            None \<Rightarrow> None
          | Some (Inr p) \<Rightarrow> Some p
          | Some (Inl e) \<Rightarrow> Some (Probe_fail (case e of [] \<Rightarrow> [] | msg # _ \<Rightarrow> msg))))"

section \<open>The verdict\<close>

definition report :: "probe \<Rightarrow> bool" where
  "report p = (case p of Probe_ok _ _ \<Rightarrow> True | Probe_throttled _ _ _ _ \<Rightarrow> True | Probe_fail _ \<Rightarrow> False)"

definition is_throttled :: "probe \<Rightarrow> bool" where
  "is_throttled p = (case p of Probe_throttled _ _ _ _ \<Rightarrow> True | _ \<Rightarrow> False)"

datatype check_mode = Salamander_mode | Sni_mode

datatype verdict =
    Stale_pin
  | Mode_survived check_mode
  | Mode_died check_mode duration
  | Mode_failed check_mode string bool
  | Ours_went_silent
  | Network_throttles_udp
  | Works_end_to_end
  | Ours_did_not_answer
  | Network_blocks_udp
  | Unusual

definition pin_mismatch :: "probe \<Rightarrow> bool" where
  "pin_mismatch ours = (case ours of Probe_fail e \<Rightarrow> contains e ''pinned cert mismatch'' | _ \<Rightarrow> False)"

definition mode_of :: "string option \<Rightarrow> bytes option \<Rightarrow> check_mode option" where
  "mode_of sni psk =
     (if psk \<noteq> None then Some Salamander_mode else if sni \<noteq> None then Some Sni_mode else None)"

definition verdict_of :: "string option \<Rightarrow> bytes option \<Rightarrow> probe \<Rightarrow> probe \<Rightarrow> verdict" where
  "verdict_of sni psk control ours =
     (let control_ok = report control; ours_ok = report ours;
          ours_throttled = is_throttled ours; control_throttled = is_throttled control in
      if pin_mismatch ours then Stale_pin
      else case mode_of sni psk of
        Some mode \<Rightarrow>
          (case ours of
             Probe_ok _ _ \<Rightarrow> Mode_survived mode
           | Probe_throttled _ died_after _ _ \<Rightarrow> Mode_died mode died_after
           | Probe_fail e \<Rightarrow> Mode_failed mode e control_ok)
      | None \<Rightarrow>
          if control_ok \<and> ours_ok \<and> ours_throttled \<and> \<not> control_throttled then Ours_went_silent
          else if control_ok \<and> ours_ok \<and> control_throttled then Network_throttles_udp
          else if control_ok \<and> ours_ok then Works_end_to_end
          else if control_ok \<and> \<not> ours_ok then Ours_did_not_answer
          else if \<not> control_ok \<and> \<not> ours_ok then Network_blocks_udp
          else Unusual)"

text \<open>The status is not 0 when the control answers and ours is the odd one out.\<close>

definition exit_status :: "probe \<Rightarrow> probe \<Rightarrow> nat" where
  "exit_status control ours = (if report control \<and> \<not> report ours then 2 else 0)"

text \<open>
  \<open>main\<close>: the two attempts, the control always plain and never pinned, then the verdict and the exit
  status. \<open>attempt\<close> gives the answers for a host and port.
\<close>

definition check_main ::
  "('i, 'm, 'z) quinn_defaults \<Rightarrow> (bytes \<Rightarrow> bytes) \<Rightarrow> (string \<Rightarrow> nat \<Rightarrow> attempt_answers)
     \<Rightarrow> (string \<Rightarrow> anyhow + bytes) \<Rightarrow> string list \<Rightarrow> (anyhow + (verdict \<times> nat)) option rust" where
  "check_main q sha256 attempt read_pin args =
     rust_bind (parse_args args no_args) (\<lambda>r.
     case r of
       Inl e \<Rightarrow> Ret (Some (Inl e))
     | Inr st \<Rightarrow>
     (case ours_of st of
        Inl e \<Rightarrow> Ret (Some (Inl e))
      | Inr (host, port) \<Rightarrow>
     (case (case ca_pin_path st of
              None \<Rightarrow> Inr None
            | Some p \<Rightarrow> map_sum (context_of (''read pin cert '' @ p)) Some (read_pin p)) of
        Inl e \<Rightarrow> Ret (Some (Inl e))
      | Inr pin \<Rightarrow>
     (let hold = from_secs (ca_hold_secs st); at = (\<lambda>h p. h @ '':'' @ show_nat p) in
      rust_bind (try_quic q sha256 (attempt CONTROL_HOST CONTROL_PORT) CONTROL_HOST
                   (at CONTROL_HOST CONTROL_PORT) None hold None None) (\<lambda>c.
      case c of
        None \<Rightarrow> Ret None
      | Some control \<Rightarrow>
          rust_bind (try_quic q sha256 (attempt host port) host (at host port) pin hold (ca_sni st) (ca_psk st)) (\<lambda>o'.
          Ret (case o' of
                 None \<Rightarrow> None
               | Some ours \<Rightarrow>
                   Some (Inr (verdict_of (ca_sni st) (ca_psk st) control ours,
                              exit_status control ours)))))))))"

section \<open>The hold loop decides\<close>

definition decisive :: "duration \<Rightarrow> hold_look \<Rightarrow> (duration \<times> string) option option" where
  "decisive hold l =
     (case fst l of
        Some reason \<Rightarrow> Some (Some (snd l, reason))
      | None \<Rightarrow> if hold \<le> snd l then Some None else None)"

lemma hold_loop_some:
  assumes "hold_loop looks hold i = Some r"
  shows "\<exists>n. decisive hold (looks n) \<noteq> None"
proof (rule hold_loop.raw_induct [OF _ assms])
  fix f looks hold i r
  assume IH: "\<And>looks hold i r. f looks hold i = Some r \<Longrightarrow> \<exists>n. decisive hold (looks n) \<noteq> None"
    and body: "(case fst (looks i) of
        None \<Rightarrow> if hold \<le> snd (looks i) then Some None else f looks hold (i + 1)
      | Some reason \<Rightarrow> Some (Some (snd (looks i), reason))) = Some r"
  show "\<exists>n. decisive hold (looks n) \<noteq> None"
  proof (cases "decisive hold (looks i)")
    case None
    then have "f looks hold (i + 1) = Some r"
      using body by (auto simp: decisive_def split: option.splits if_splits)
    then show ?thesis
      by (rule IH)
  qed auto
qed

interpretation holding: polling_loop "hold_loop looks hold" "\<lambda>i. decisive hold (looks i)"
  for looks hold
proof unfold_locales
  show "hold_loop looks hold i =
      (case decisive hold (looks i) of None \<Rightarrow> hold_loop looks hold (Suc i) | Some r \<Rightarrow> Some r)" for i
    by (subst hold_loop.simps) (simp add: decisive_def split: option.split)
qed (rule hold_loop_some)

section \<open>Properties\<close>

text \<open>
  Holding a connection returns when every sleep takes its 500 ms, and its answer is exact: survived
  means that no look found the connection closed up to one at or after the end of the window; died
  after \<open>t\<close> means that the look at \<open>t\<close> is the first that found it closed and no earlier look was past the
  window.
\<close>

theorem holding_tells_survival_from_death:
  assumes "\<And>k. k * from_millis 500 \<le> snd (looks k)"
  shows "\<exists>r n. hold_loop looks hold 0 = Some r \<and> (\<forall>m < n. fst (looks m) = None \<and> snd (looks m) < hold)
    \<and> (case r of
         None \<Rightarrow> fst (looks n) = None \<and> hold \<le> snd (looks n)
       | Some (t, reason) \<Rightarrow> fst (looks n) = Some reason \<and> snd (looks n) = t)"
proof -
  have "hold \<le> hold * from_millis 500"
    by (simp add: from_millis_def)
  with assms [of hold] have "hold \<le> snd (looks hold)"
    by linarith
  then have "decisive hold (looks hold) \<noteq> None"
    by (simp add: decisive_def split: option.split)
  then obtain n r where r: "decisive hold (looks n) = Some r" and before: "\<forall>m < n. decisive hold (looks m) = None"
    and run: "hold_loop looks hold 0 = Some r"
    using holding.returns by blast
  have "\<forall>m < n. fst (looks m) = None \<and> snd (looks m) < hold"
    using before by (auto simp: decisive_def not_le split: option.splits if_splits)
  with run show ?thesis
    using r by (intro exI [of _ r] exI [of _ n]) (auto simp: decisive_def split: option.splits if_splits)
qed

theorem holding_tells_survival_from_death_witness:
  "\<exists>r. hold_loop (\<lambda>k. (if k = 3 then Some ''timed out'' else None, k * from_millis 500)) (from_secs 30) 0 = Some r"
  using holding_tells_survival_from_death
    [of "\<lambda>k. (if k = 3 then Some ''timed out'' else None, k * from_millis 500)" "from_secs 30"] by auto

text \<open>
  The verdict says what was observed. Without overrides, the all-clear is given exactly when both
  endpoints answered and survived, the network is blamed for blocking exactly when neither answered and
  for throttling exactly when the control died and ours had answered, our gateway exactly when only the
  control answered; a stale pin is reported exactly when our attempt failed on the pin, whatever else
  was seen.
\<close>

theorem the_verdict_says_what_was_observed:
  "(verdict_of sni psk control ours = Stale_pin \<longleftrightarrow> pin_mismatch ours)
   \<and> (verdict_of None None control ours = Works_end_to_end \<longleftrightarrow>
        report control \<and> \<not> is_throttled control \<and> report ours \<and> \<not> is_throttled ours)
   \<and> (verdict_of None None control ours = Network_throttles_udp \<longleftrightarrow> is_throttled control \<and> report ours)
   \<and> (verdict_of None None control ours = Ours_went_silent \<longleftrightarrow>
        report control \<and> \<not> is_throttled control \<and> is_throttled ours)
   \<and> (verdict_of None None control ours = Ours_did_not_answer \<longleftrightarrow>
        report control \<and> \<not> report ours \<and> \<not> pin_mismatch ours)
   \<and> (verdict_of None None control ours = Network_blocks_udp \<longleftrightarrow>
        \<not> report control \<and> \<not> report ours \<and> \<not> pin_mismatch ours)
   \<and> (verdict_of None None control ours = Unusual \<longleftrightarrow> \<not> report control \<and> report ours)"
  by (cases control; cases ours)
    (auto simp: verdict_of_def mode_of_def report_def is_throttled_def pin_mismatch_def Let_def
      split: option.split)

text \<open>The verdicts that say that our gateway completed a handshake.\<close>

fun says_ours_answered :: "verdict \<Rightarrow> bool" where
  "says_ours_answered (Mode_survived m) = True"
| "says_ours_answered (Mode_died m t) = True"
| "says_ours_answered Ours_went_silent = True"
| "says_ours_answered Network_throttles_udp = True"
| "says_ours_answered Works_end_to_end = True"
| "says_ours_answered Unusual = True"
| "says_ours_answered v = False"

lemma verdict_answered: "says_ours_answered (verdict_of sni psk control ours) \<longleftrightarrow> report ours"
  by (cases control; cases ours)
    (auto simp: verdict_of_def mode_of_def report_def is_throttled_def pin_mismatch_def Let_def
      split: option.split)

lemma check_client_config_pin:
  "check_client_config q versions quic pin obf = Ret (Inr cfg) \<Longrightarrow> kc_pin cfg = pin"
  by (auto simp: check_client_config_def rust_bind_eq_Ret split: option.splits)

definition signature_verdict :: "attempt_answers \<Rightarrow> string + unit" where
  "signature_verdict aa =
     verify_tls13_signature (aa_rustls aa) (aa_algorithms aa) (aa_transcript aa) (aa_leaf aa) (aa_signature aa)"

lemma try_quic_inner_done:
  assumes "try_quic_inner q sha256 aa host host_port pin hold sni psk = Ret (Some (Inr p))"
  shows "aa_handshake aa (fst (verify_server_cert sha256 pin (aa_leaf aa))) (signature_verdict aa)
      UDPCHECK_HANDSHAKE_TIMEOUT = Handshake_done"
proof -
  obtain addr addrs where resolved: "aa_resolve aa = Inr (addr # addrs)"
    using assms by (cases "aa_resolve aa"; cases "projr (aa_resolve aa)") (auto simp: try_quic_inner_def)
  obtain cfg where cfg: "check_client_config q (aa_versions aa) (aa_quic aa) pin (psk \<noteq> None) = Ret (Inr cfg)"
  proof (cases "check_client_config q (aa_versions aa) (aa_quic aa) pin (psk \<noteq> None)")
    case Panic
    with assms resolved show ?thesis by (simp add: try_quic_inner_def)
  next
    case (Ret r)
    with assms resolved that show ?thesis by (cases r) (simp_all add: try_quic_inner_def)
  qed
  let ?bind = "if \<not> is_ipv4 addr then Addr_v6 0 0 0 0 else Addr_v4 0 0"
  let ?name = "case sni of Some s \<Rightarrow> s | None \<Rightarrow> host"
  let ?shake = "aa_handshake aa (fst (verify_server_cert sha256 pin (aa_leaf aa))) (signature_verdict aa)
      UDPCHECK_HANDSHAKE_TIMEOUT"
  show ?thesis
    using assms resolved cfg check_client_config_pin [OF cfg]
    by (cases "check_endpoint aa ?bind psk"; cases "aa_connect aa (projr (check_endpoint aa ?bind psk)) addr ?name";
        cases ?shake) (simp_all add: try_quic_inner_def signature_verdict_def Let_def case_prod_beta)
qed

lemma try_quic_reports:
  assumes "try_quic q sha256 aa host host_port pin hold sni psk = Ret (Some p)" and "report p"
  shows "aa_handshake aa (fst (verify_server_cert sha256 pin (aa_leaf aa))) (signature_verdict aa)
      UDPCHECK_HANDSHAKE_TIMEOUT = Handshake_done"
proof -
  obtain r where r: "try_quic_inner q sha256 aa host host_port pin hold sni psk = Ret (Some r)"
    using assms(1) by (auto simp: try_quic_def rust_bind_eq_Ret split: option.splits)
  with assms obtain p' where "r = Inr p'"
    by (cases r) (auto simp: try_quic_def report_def)
  with r show ?thesis
    by (intro try_quic_inner_done) simp
qed

text \<open>
  C40: A pinned check vouches for the pinned gateway alone. When the check was given a pin, and rustls
  completes no handshake whose certificate or signature the verifier refused, a verdict that our gateway
  answered, survived or was killed later is given only if the server presented exactly the pinned
  certificate and rustls accepted its signature of this handshake under that certificate; and the exit status is 2 exactly when the control answered and ours did not.
\<close>

theorem a_pinned_check_saw_the_pinned_certificate:
  assumes "check_main q sha256 attempt read_pin args = Ret (Some (Inr (v, status)))"
    and "parse_args args no_args = Ret (Inr st)" and "ours_of st = Inr (host, port)"
    and "ca_pin_path st = Some path" and "read_pin path = Inr c"
    and aa: "aa = attempt host port"
    and cert: "\<And>msg signed t. aa_handshake aa (Inl msg) signed t \<noteq> Handshake_done"
    and signed: "\<And>verified msg t. aa_handshake aa verified (Inl msg) t \<noteq> Handshake_done"
  shows "(says_ours_answered v \<longrightarrow>
      aa_leaf aa = c \<and> aa_rustls aa (aa_transcript aa) c (aa_signature aa) (aa_algorithms aa) = Inr ())
    \<and> (status = 2 \<longrightarrow> \<not> says_ours_answered v)"
proof -
  from assms(1-5) obtain control ours where
    run: "try_quic q sha256 aa host (host @ '':'' @ show_nat port) (Some c)
        (from_secs (ca_hold_secs st)) (ca_sni st) (ca_psk st) = Ret (Some ours)"
    and v: "v = verdict_of (ca_sni st) (ca_psk st) control ours"
    and status: "status = (if report control \<and> \<not> report ours then 2 else 0)"
    by (auto simp: aa check_main_def exit_status_def rust_bind_eq_Ret Let_def split: option.splits)
  have "aa_leaf aa = c \<and> signature_verdict aa = Inr ()" if "report ours"
    using try_quic_reports [OF run that] cert signed
    by (cases "signature_verdict aa") (auto simp: verify_server_cert_def Let_def split: if_splits)
  with status show ?thesis
    by (auto simp: v verdict_answered signature_verdict_def verify_tls13_signature_def)
qed

text \<open>Both hosts answer; ours presents \<open>leaf\<close>, and a signature is good when it is the transcript.\<close>

definition sample_attempt :: "bytes \<Rightarrow> string \<Rightarrow> nat \<Rightarrow> attempt_answers" where
  "sample_attempt leaf host port = \<lparr>aa_resolve = Inr [Addr_v4 7 443], aa_versions = None, aa_quic = None,
     aa_algorithms = [''ed25519''], aa_runtime = True,
     aa_bind = \<lambda>_. Inr \<lparr>spin_recv_errors = 0, spin_send_errors = 0, spin_received = 0, spin_reads = [],
                    spin_writes = []\<rparr>,
     aa_new_endpoint = \<lambda>_. Inr (), aa_plain = \<lambda>_. None, aa_show_io = \<lambda>_. [], aa_connect = \<lambda>_ _ _. None, aa_leaf = leaf,
     aa_transcript = [1, 2], aa_signature = [1, 2],
     aa_rustls = \<lambda>message cert dss algs. if message = dss then Inr () else Inl ''bad signature'',
     aa_handshake = \<lambda>verified signed _. case verified of Inl msg \<Rightarrow> Handshake_failed [msg]
       | Inr _ \<Rightarrow> (case signed of Inl msg \<Rightarrow> Handshake_failed [msg] | Inr _ \<Rightarrow> Handshake_done),
     aa_rtt = 85000000, aa_looks = \<lambda>i. (None, i * from_millis 500)\<rparr>"

theorem a_pinned_check_saw_the_pinned_certificate_witness:
  "check_main sample_quinn id (sample_attempt [9]) (\<lambda>_. Inr [9]) [''--pin'', ''c.der'', ''h'']
     = Ret (Some (Inr (Works_end_to_end, 0)))
   \<and> aa_leaf (sample_attempt [9] ''h'' 443) = [9]"
proof -
  have run: "check_main sample_quinn id (sample_attempt [9]) (\<lambda>_. Inr [9]) [''--pin'', ''c.der'', ''h'']
     = Ret (Some (Inr (Works_end_to_end, 0)))"
    by (simp add: check_main_def exit_status_def no_args_def ours_of_def DEFAULT_OURS_PORT_def CONTROL_HOST_def try_quic_def
        try_quic_inner_def sample_attempt_def check_client_config_def check_transport_config_def sample_quinn_def
        check_endpoint_def verify_server_cert_def verify_tls13_signature_def from_secs_def verdict_of_def report_def is_throttled_def pin_mismatch_def mode_of_def)
  have args: "parse_args [''--pin'', ''c.der'', ''h''] no_args =
      Ret (Inr (no_args\<lparr>ca_pin_path := Some ''c.der'', ca_positional := [''h'']\<rparr>))"
    by (simp add: no_args_def)
  have ours: "ours_of (no_args\<lparr>ca_pin_path := Some ''c.der'', ca_positional := [''h'']\<rparr>) = Inr (''h'', 443)"
    by (simp add: ours_of_def DEFAULT_OURS_PORT_def)
  from a_pinned_check_saw_the_pinned_certificate [OF run args ours, of "''c.der''" "[9]"
      "sample_attempt [9] ''h'' 443"] run
  show ?thesis
    by (simp add: sample_attempt_def split: sum.splits)
qed

end
