(* ===== verification/Client_Lifecycle.thy ===== *)
theory Client_Lifecycle
  imports Client_Connect "HOL-Library.Multiset"
begin

text \<open>
  The end of a connection (\<open>src/src/client.rs\<close>): \<open>close\<close>, \<open>Drop\<close> and their common \<open>retire\<close>, and
  the gauge of live connections.

  \<open>retire\<close> is first a function on the process, the run nobody interrupts. Its five effects are
  atomic one by one and not together, and \<open>close\<close> may be called from several threads while other
  threads connect; \<open>step\<close> is that interleaving, one rule per atomic effect. The flag and the gauge are
  single atomics, whose read-modify-writes are totally ordered under \<open>Ordering::Relaxed\<close> too.

  The lemmas: \<open>world_ok\<close> is an invariant of \<open>step\<close>, made of the statements below; the properties read it off.
\<close>

section \<open>Retiring a client\<close>

text \<open>Quinn keeps the reason of the first close.\<close>

definition conn_close :: "string \<Rightarrow> quic_client \<Rightarrow> quic_client" where
  "conn_close reason c =
     (case qc_closed c of None \<Rightarrow> c\<lparr>qc_closed := Some reason\<rparr> | Some r \<Rightarrow> c)"

definition abort_driver :: "quic_client \<Rightarrow> quic_client" where
  "abort_driver c = c\<lparr>qc_aborted := True\<rparr>"

definition set_retired :: "quic_client \<Rightarrow> quic_client" where
  "set_retired c = c\<lparr>qc_retired := True\<rparr>"

definition on_client :: "nat \<Rightarrow> (quic_client \<Rightarrow> quic_client) \<Rightarrow> 'c proc \<Rightarrow> 'c proc" where
  "on_client i f p = p\<lparr>p_clients := (p_clients p)[i := f (p_clients p ! i)]\<rparr>"

definition gauge_sub :: "'c proc \<Rightarrow> 'c proc" where
  "gauge_sub p = p\<lparr>p_live := p_live p - 1\<rparr>"

definition retire :: "string \<Rightarrow> nat \<Rightarrow> 'c proc \<Rightarrow> 'c proc" where
  "retire reason i p =
     (let p1 = on_client i (conn_close reason) p;
          p2 = on_client i abort_driver p1;
          p3 = close_endpoint (qc_endpoint (p_clients p2 ! i)) p2;
          was = qc_retired (p_clients p3 ! i);
          p4 = on_client i set_retired p3
      in if \<not> was then gauge_sub p4 else p4)"

definition client_close :: "nat \<Rightarrow> 'c proc \<Rightarrow> 'c proc" where
  "client_close i p = retire ''client closed'' i p"

definition client_drop :: "nat \<Rightarrow> 'c proc \<Rightarrow> 'c proc" where
  "client_drop i p = retire ''client dropped'' i p"

lemmas retire_defs = retire_def conn_close_def abort_driver_def set_retired_def on_client_def
  gauge_sub_def close_endpoint_def Let_def

lemma on_client_simps [simp]:
  "p_live (on_client i f p) = p_live p" "p_endpoints (on_client i f p) = p_endpoints p"
  "p_clock (on_client i f p) = p_clock p"
  "p_clients (on_client i f p) = (p_clients p)[i := f (p_clients p ! i)]"
  by (simp_all add: on_client_def)

lemma client_update_simps [simp]:
  "qc_endpoint (conn_close r c) = qc_endpoint c" "qc_retired (conn_close r c) = qc_retired c"
  "qc_aborted (conn_close r c) = qc_aborted c" "qc_closed (conn_close r c) \<noteq> None" "\<exists>y. qc_closed (conn_close r c) = Some y"
  "qc_endpoint (abort_driver c) = qc_endpoint c" "qc_retired (abort_driver c) = qc_retired c"
  "qc_aborted (abort_driver c)" "qc_closed (abort_driver c) = qc_closed c"
  "qc_endpoint (set_retired c) = qc_endpoint c" "qc_retired (set_retired c)"
  "qc_aborted (set_retired c) = qc_aborted c" "qc_closed (set_retired c) = qc_closed c"
  by (auto simp: conn_close_def abort_driver_def set_retired_def split: option.splits)

section \<open>Threads\<close>

text \<open>What a thread inside \<open>retire\<close> does next; the order is the order of the code.\<close>

datatype stage = Close_conn | Abort_driver | Close_end | Swap_flag | Sub_gauge | Returned

instantiation stage :: linorder
begin

primrec stage_rank :: "stage \<Rightarrow> nat" where
  "stage_rank Close_conn = 0"
| "stage_rank Abort_driver = 1"
| "stage_rank Close_end = 2"
| "stage_rank Swap_flag = 3"
| "stage_rank Sub_gauge = 4"
| "stage_rank Returned = 5"

definition less_eq_stage :: "stage \<Rightarrow> stage \<Rightarrow> bool" where
  "less_eq_stage a b \<longleftrightarrow> stage_rank a \<le> stage_rank b"

definition less_stage :: "stage \<Rightarrow> stage \<Rightarrow> bool" where
  "less_stage a b \<longleftrightarrow> stage_rank a < stage_rank b"

instance
proof
  fix a b :: stage
  show "a \<le> b \<Longrightarrow> b \<le> a \<Longrightarrow> a = b"
    by (cases a; cases b) (simp_all add: less_eq_stage_def)
qed (auto simp: less_eq_stage_def less_stage_def)

end

lemmas stage_order = less_eq_stage_def less_stage_def

text \<open>
  A thread that finished a handshake adds to the gauge and then builds the client it returns; a thread
  in \<open>retire\<close> is at a stage for a client and a reason.
\<close>

datatype task =
    Adding quic_client
  | Building quic_client
  | Connected
  | Retiring nat string stage

record 'c world =
  w_proc :: "'c proc"
  w_tasks :: "task list"

definition with_task :: "'c world \<Rightarrow> nat \<Rightarrow> task \<Rightarrow> 'c proc \<Rightarrow> 'c world" where
  "with_task w t k p = \<lparr>w_proc = p, w_tasks = (w_tasks w)[t := k]\<rparr>"

definition spawn :: "'c world \<Rightarrow> task \<Rightarrow> 'c proc \<Rightarrow> 'c world" where
  "spawn w k p = \<lparr>w_proc = p, w_tasks = w_tasks w @ [k]\<rparr>"

definition at_task :: "'c world \<Rightarrow> nat \<Rightarrow> task \<Rightarrow> bool" where
  "at_task w t k \<longleftrightarrow> t < length (w_tasks w) \<and> w_tasks w ! t = k"

inductive step :: "'c world \<Rightarrow> 'c world \<Rightarrow> bool" where
  handshake_done [step_intros]:
    "\<not> ep_closed e \<Longrightarrow>
       step w (spawn w (Adding (new_client (length (p_endpoints (w_proc w))) recipe server_name addr))
                 ((w_proc w)\<lparr>p_endpoints := p_endpoints (w_proc w) @ [e]\<rparr>))"
| fetch_add [step_intros]:
    "at_task w t (Adding c) \<Longrightarrow>
       step w (with_task w t (Building c) ((w_proc w)\<lparr>p_live := p_live (w_proc w) + 1\<rparr>))"
| build [step_intros]:
    "at_task w t (Building c) \<Longrightarrow>
       step w (with_task w t Connected ((w_proc w)\<lparr>p_clients := p_clients (w_proc w) @ [c]\<rparr>))"
| call [step_intros]:
    "i < length (p_clients (w_proc w)) \<Longrightarrow> step w (spawn w (Retiring i reason Close_conn) (w_proc w))"
| close_conn [step_intros]:
    "at_task w t (Retiring i reason Close_conn) \<Longrightarrow>
       step w (with_task w t (Retiring i reason Abort_driver) (on_client i (conn_close reason) (w_proc w)))"
| abort [step_intros]:
    "at_task w t (Retiring i reason Abort_driver) \<Longrightarrow>
       step w (with_task w t (Retiring i reason Close_end) (on_client i abort_driver (w_proc w)))"
| close_end [step_intros]:
    "at_task w t (Retiring i reason Close_end) \<Longrightarrow>
       step w (with_task w t (Retiring i reason Swap_flag)
                 (close_endpoint (qc_endpoint (p_clients (w_proc w) ! i)) (w_proc w)))"
| swap_first [step_intros]:
    "at_task w t (Retiring i reason Swap_flag) \<Longrightarrow> \<not> qc_retired (p_clients (w_proc w) ! i) \<Longrightarrow>
       step w (with_task w t (Retiring i reason Sub_gauge) (on_client i set_retired (w_proc w)))"
| swap_again [step_intros]:
    "at_task w t (Retiring i reason Swap_flag) \<Longrightarrow> qc_retired (p_clients (w_proc w) ! i) \<Longrightarrow>
       step w (with_task w t (Retiring i reason Returned) (on_client i set_retired (w_proc w)))"
| fetch_sub [step_intros]:
    "at_task w t (Retiring i reason Sub_gauge) \<Longrightarrow>
       step w (with_task w t (Retiring i reason Returned) (gauge_sub (w_proc w)))"

definition start :: "'c world" where
  "start = \<lparr>w_proc = no_proc, w_tasks = []\<rparr>"

definition reachable :: "'c world \<Rightarrow> bool" where
  "reachable w \<longleftrightarrow> step\<^sup>*\<^sup>* start w"

lemma reachable_induct [consumes 1, case_names start step]:
  assumes "reachable w" and "P start" and "\<And>w w'. P w \<Longrightarrow> step w w' \<Longrightarrow> P w'"
  shows "P w"
  using assms(1) unfolding reachable_def by (induction rule: rtranclp_induct) (auto intro: assms)

lemma world_simps [simp]:
  "w_proc (with_task w t k p) = p" "w_tasks (with_task w t k p) = (w_tasks w)[t := k]"
  "w_proc (spawn w k p) = p" "w_tasks (spawn w k p) = w_tasks w @ [k]"
  by (simp_all add: with_task_def spawn_def)

section \<open>Ownership\<close>

text \<open>
  Every endpoint has at most one owner, a client or the thread that is about to make it one; the
  owners are a sub-multiset of the endpoints that exist.
\<close>

primrec pending :: "task \<Rightarrow> nat multiset" where
  "pending (Adding c) = {#qc_endpoint c#}"
| "pending (Building c) = {#qc_endpoint c#}"
| "pending Connected = {#}"
| "pending (Retiring i reason s) = {#}"

definition owners :: "'c world \<Rightarrow> nat multiset" where
  "owners w = mset (map qc_endpoint (p_clients (w_proc w))) + sum_list (map pending (w_tasks w))"

definition owned_ok :: "'c world \<Rightarrow> bool" where
  "owned_ok w \<longleftrightarrow> owners w \<subseteq># mset [0..<length (p_endpoints (w_proc w))]"

lemma owners_with_task:
  assumes "at_task w t k"
  shows "owners (with_task w t k' p) + pending k
    = mset (map qc_endpoint (p_clients p)) + sum_list (map pending (w_tasks w)) + pending k'"
  using assms sum_list_map_update [of t "w_tasks w" pending k']
  by (auto simp: owners_def at_task_def ac_simps)

lemma map_endpoint_on_client [simp]:
  "(\<And>c. qc_endpoint (f c) = qc_endpoint c) \<Longrightarrow>
     map qc_endpoint ((p_clients p)[i := f (p_clients p ! i)]) = map qc_endpoint (p_clients p)"
  by (metis list_update_id map_update)

lemma owned_ok_with_task:
  assumes "at_task w t k" and "owned_ok w" and "pending k' = pending k"
    and "map qc_endpoint (p_clients p) = map qc_endpoint (p_clients (w_proc w))"
    and "length (p_endpoints p) = length (p_endpoints (w_proc w))"
  shows "owned_ok (with_task w t k' p)"
proof -
  have "owners (with_task w t k' p) = owners w"
    using owners_with_task [OF assms(1), of k' p] assms(3,4) unfolding owners_def by simp
  with assms(2,5) show ?thesis
    by (simp add: owned_ok_def)
qed

lemma gauge_sub_simps [simp]:
  "p_live (gauge_sub p) = p_live p - 1" "p_endpoints (gauge_sub p) = p_endpoints p"
  "p_clients (gauge_sub p) = p_clients p" "p_clock (gauge_sub p) = p_clock p"
  by (simp_all add: gauge_sub_def)

lemma owned_ok_step: "step w w' \<Longrightarrow> owned_ok w \<Longrightarrow> owned_ok w'"
proof (induction rule: step.induct)
  case (handshake_done e w recipe server_name addr)
  then show ?case
    by (simp add: owned_ok_def owners_def new_client_def)
next
  case (build w t c)
  let ?p = "(w_proc w)\<lparr>p_clients := p_clients (w_proc w) @ [c]\<rparr>"
  have "owners (with_task w t Connected ?p) = owners w"
    using owners_with_task [OF build(1), of Connected ?p]
    by (simp add: owners_def del: world_simps)
  with build(2) show ?case
    by (simp add: owned_ok_def)
next
  case (call i w reason)
  then show ?case
    by (simp add: owned_ok_def owners_def)
qed (erule owned_ok_with_task; simp del: map_update)+

lemma owner_bound:
  "owned_ok w \<Longrightarrow> e \<in># owners w \<Longrightarrow> e < length (p_endpoints (w_proc w))"
  unfolding owned_ok_def by (drule (1) mset_subset_eqD) simp

lemma owner_once:
  assumes "owned_ok w"
  shows "count (owners w) e \<le> 1"
proof -
  have "count (owners w) e \<le> count (mset [0..<length (p_endpoints (w_proc w))]) e"
    using assms by (auto simp: owned_ok_def intro: mset_subset_eq_count)
  also have "\<dots> \<le> 1"
    using distinct_count_atmost_1 [of "[0..<length (p_endpoints (w_proc w))]"] by simp
  finally show ?thesis .
qed

lemma client_owner:
  "i < length (p_clients (w_proc w)) \<Longrightarrow> qc_endpoint (p_clients (w_proc w) ! i) \<in># owners w"
  by (simp add: owners_def)

lemma task_pending_subset: "k \<in> set ks \<Longrightarrow> pending k \<subseteq># sum_list (map pending ks)"
  by (induction ks) (auto intro: subset_mset.order_trans)

lemma pending_owner: "k \<in> set (w_tasks w) \<Longrightarrow> e \<in># pending k \<Longrightarrow> e \<in># owners w"
  using mset_subset_eqD [OF task_pending_subset] by (fastforce simp: owners_def)

lemma clients_own_apart:
  assumes "owned_ok w" and "i < length (p_clients (w_proc w))" and "j < length (p_clients (w_proc w))"
    and "qc_endpoint (p_clients (w_proc w) ! i) = qc_endpoint (p_clients (w_proc w) ! j)"
  shows "i = j"
proof -
  let ?es = "map qc_endpoint (p_clients (w_proc w))"
  have "count (mset ?es) e \<le> 1" for e
    using owner_once [OF assms(1), of e] unfolding owners_def count_union by (rule add_leD1)
  then have "distinct ?es"
    by (metis count_eq_zero_iff distinct_count_atmost_1 le_antisym le_neq_implies_less less_one
        not_gr_zero set_mset_mset)
  then show ?thesis
    using assms(2-4) nth_eq_iff_index_eq [of ?es i j] by simp
qed

lemma pending_owns_apart:
  assumes "owned_ok w" and "i < length (p_clients (w_proc w))" and "k \<in> set (w_tasks w)" and "e \<in># pending k"
  shows "qc_endpoint (p_clients (w_proc w) ! i) \<noteq> e"
proof
  assume e: "qc_endpoint (p_clients (w_proc w) ! i) = e"
  have "1 \<le> count (mset (map qc_endpoint (p_clients (w_proc w)))) e"
    using assms(2) e by (auto simp: Suc_le_eq count_greater_zero_iff)
  moreover have "1 \<le> count (sum_list (map pending (w_tasks w))) e"
    using mset_subset_eqD [OF task_pending_subset [OF assms(3)] assms(4)] by (simp add: Suc_le_eq)
  ultimately show False
    using owner_once [OF assms(1), of e] unfolding owners_def count_union by linarith
qed

section \<open>What has been done to a client\<close>

definition endpoint_closed :: "'c proc \<Rightarrow> quic_client \<Rightarrow> bool" where
  "endpoint_closed p c = ep_closed (p_endpoints p ! qc_endpoint c)"

text \<open>The effects of \<open>retire\<close> that come before a stage.\<close>

definition done_before :: "stage \<Rightarrow> 'c proc \<Rightarrow> quic_client \<Rightarrow> bool" where
  "done_before s p c \<longleftrightarrow>
     (Close_conn < s \<longrightarrow> qc_closed c \<noteq> None) \<and> (Abort_driver < s \<longrightarrow> qc_aborted c)
     \<and> (Close_end < s \<longrightarrow> endpoint_closed p c) \<and> (Swap_flag < s \<longrightarrow> qc_retired c)"

definition untouched :: "'c proc \<Rightarrow> quic_client \<Rightarrow> bool" where
  "untouched p c \<longleftrightarrow>
     qc_closed c = None \<and> \<not> qc_aborted c \<and> \<not> endpoint_closed p c \<and> \<not> qc_retired c"

text \<open>A later state of the same client: nothing that was done is undone, and nothing is done without a task.\<close>

definition grows :: "'c proc \<Rightarrow> quic_client \<Rightarrow> 'c proc \<Rightarrow> quic_client \<Rightarrow> bool" where
  "grows p c p' c' \<longleftrightarrow>
     (qc_closed c \<noteq> None \<longrightarrow> qc_closed c' \<noteq> None) \<and> (qc_aborted c \<longrightarrow> qc_aborted c')
     \<and> (endpoint_closed p c \<longrightarrow> endpoint_closed p' c') \<and> (qc_retired c \<longrightarrow> qc_retired c')"

lemma done_before_grows: "done_before s p c \<Longrightarrow> grows p c p' c' \<Longrightarrow> done_before s p' c'"
  by (auto simp: done_before_def grows_def)

definition history_ok :: "'c world \<Rightarrow> bool" where
  "history_ok w \<longleftrightarrow>
     (\<forall>i reason s. Retiring i reason s \<in> set (w_tasks w) \<longrightarrow>
        i < length (p_clients (w_proc w)) \<and> done_before s (w_proc w) (p_clients (w_proc w) ! i))
     \<and> (\<forall>j < length (p_clients (w_proc w)). qc_retired (p_clients (w_proc w) ! j) \<longrightarrow>
        done_before Returned (w_proc w) (p_clients (w_proc w) ! j))"

definition fresh_ok :: "'c world \<Rightarrow> bool" where
  "fresh_ok w \<longleftrightarrow>
     (\<forall>c. Adding c \<in> set (w_tasks w) \<or> Building c \<in> set (w_tasks w) \<longrightarrow> untouched (w_proc w) c)
     \<and> (\<forall>j < length (p_clients (w_proc w)).
          (\<exists>reason s. Retiring j reason s \<in> set (w_tasks w)) \<or> untouched (w_proc w) (p_clients (w_proc w) ! j))"

lemma at_task_mem: "at_task w t k \<Longrightarrow> k \<in> set (w_tasks w)"
  by (auto simp: at_task_def)

lemma history_ok_retiring:
  assumes "at_task w t (Retiring i reason s)" and "history_ok w"
    and "length (p_clients p) = length (p_clients (w_proc w))"
    and grows: "\<And>j. j < length (p_clients p) \<Longrightarrow> grows (w_proc w) (p_clients (w_proc w) ! j) p (p_clients p ! j)"
    and "done_before s (w_proc w) (p_clients (w_proc w) ! i) \<Longrightarrow> i < length (p_clients p) \<Longrightarrow>
      done_before s' p (p_clients p ! i)"
    and "\<And>j. j < length (p_clients p) \<Longrightarrow> qc_retired (p_clients p ! j) \<Longrightarrow>
      qc_retired (p_clients (w_proc w) ! j) \<or> j = i \<and> s' > Swap_flag"
  shows "history_ok (with_task w t (Retiring i reason s') p)"
proof -
  have i: "i < length (p_clients p)" "done_before s (w_proc w) (p_clients (w_proc w) ! i)"
    using assms(2,3) at_task_mem [OF assms(1)] by (auto simp: history_ok_def)
  have later: "done_before s'' p (p_clients p ! j)"
    if "done_before s'' (w_proc w) (p_clients (w_proc w) ! j)" "j < length (p_clients p)" for j s''
    using done_before_grows [OF that(1) grows [OF that(2)]] .
  have ret: "s' > Swap_flag \<Longrightarrow> done_before Returned p (p_clients p ! i)"
    using assms(5) [OF i(2,1)] by (cases s') (auto simp: done_before_def stage_order)
  have "done_before Returned p (p_clients p ! j)" if "j < length (p_clients p)" "qc_retired (p_clients p ! j)" for j
    using assms(6) [OF that] ret later that assms(2,3) by (auto simp: history_ok_def)
  moreover have "j < length (p_clients p) \<and> done_before s'' p (p_clients p ! j)"
    if "Retiring j r s'' \<in> set ((w_tasks w)[t := Retiring i reason s'])" for j r s''
    using set_update_subset_insert [of "w_tasks w" t "Retiring i reason s'"] that assms(2,3) i
      assms(5) [OF i(2,1)] later by (fastforce simp: history_ok_def)
  ultimately show ?thesis
    by (simp add: history_ok_def)
qed

lemma endpoint_closed_close_endpoint:
  "e < length (p_endpoints p) \<Longrightarrow>
     endpoint_closed (close_endpoint e p) c \<longleftrightarrow> qc_endpoint c = e \<or> endpoint_closed p c"
  by (cases "qc_endpoint c = e") (auto simp: endpoint_closed_def close_endpoint_def)

lemma endpoint_closed_on_client [simp]: "endpoint_closed (on_client i f p) c = endpoint_closed p c"
  and endpoint_closed_gauge_sub [simp]: "endpoint_closed (gauge_sub p) c = endpoint_closed p c"
  by (simp_all add: endpoint_closed_def)

lemma endpoint_closed_update [simp]:
  "endpoint_closed p (conn_close r c) = endpoint_closed p c"
  "endpoint_closed p (abort_driver c) = endpoint_closed p c"
  "endpoint_closed p (set_retired c) = endpoint_closed p c"
  by (simp_all add: endpoint_closed_def)

lemma done_before_gauge_sub [simp]: "done_before s (gauge_sub p) c = done_before s p c"
  by (simp add: done_before_def)

lemma history_ok_step:
  assumes "step w w'" and "history_ok w" and "owned_ok w" and "fresh_ok w"
  shows "history_ok w'"
  using assms
proof (induction rule: step.induct)
  case (handshake_done e w recipe server_name addr)
  have "endpoint_closed ((w_proc w)\<lparr>p_endpoints := p_endpoints (w_proc w) @ [e]\<rparr>) (p_clients (w_proc w) ! j)
      = endpoint_closed (w_proc w) (p_clients (w_proc w) ! j)" if "j < length (p_clients (w_proc w))" for j
    using owner_bound [OF handshake_done(3) client_owner [OF that]]
    by (simp add: endpoint_closed_def nth_append)
  with handshake_done(2) show ?case
    by (auto simp: history_ok_def done_before_def)
next
  case (fetch_add w t c)
  then show ?case
    using set_update_subset_insert [of "w_tasks w" t "Building c"]
    by (fastforce simp: history_ok_def done_before_def endpoint_closed_def)
next
  case (close_conn w t i reason)
  show ?case
    by (rule history_ok_retiring [OF close_conn(1,2)])
      (auto simp: grows_def done_before_def stage_order nth_apply_at split: if_splits)
next
  case (abort w t i reason)
  show ?case
    by (rule history_ok_retiring [OF abort(1,2)])
      (auto simp: grows_def done_before_def stage_order nth_apply_at split: if_splits)
next
  case (close_end w t i reason)
  have i: "i < length (p_clients (w_proc w))"
    using close_end(2) at_task_mem [OF close_end(1)] by (auto simp: history_ok_def)
  note e = owner_bound [OF close_end(3) client_owner [OF i]]
  show ?case
    by (rule history_ok_retiring [OF close_end(1,2)])
      (auto simp: done_before_def stage_order grows_def endpoint_closed_close_endpoint [OF e])
next
  case (swap_first w t i reason)
  show ?case
    by (rule history_ok_retiring [OF swap_first(1,3)])
      (auto simp: grows_def done_before_def stage_order nth_apply_at split: if_splits)
next
  case (swap_again w t i reason)
  show ?case
    by (rule history_ok_retiring [OF swap_again(1,3)])
      (auto simp: grows_def done_before_def stage_order nth_apply_at split: if_splits)
next
  case (fetch_sub w t i reason)
  show ?case
    by (rule history_ok_retiring [OF fetch_sub(1,2)])
      (auto simp: done_before_def stage_order grows_def)
next
  case (call i w reason)
  then show ?case
    by (auto simp: history_ok_def done_before_def stage_order)
next
  case (build w t c)
  have new: "\<not> qc_retired c"
    using build(4) at_task_mem [OF build(1)] by (auto simp: fresh_ok_def untouched_def)
  have "done_before s ((w_proc w)\<lparr>p_clients := cs\<rparr>) c' = done_before s (w_proc w) c'" for s cs c'
    by (simp add: done_before_def endpoint_closed_def)
  with build(2) new show ?case
    using set_update_subset_insert [of "w_tasks w" t Connected]
    by (fastforce simp: history_ok_def nth_append less_Suc_eq)
qed

text \<open>A task that changes nothing about the clients it does not retire leaves the untouched ones so.\<close>

lemma fresh_ok_retiring:
  assumes "at_task w t (Retiring i reason s)" and "fresh_ok w"
    and "length (p_clients p) = length (p_clients (w_proc w))"
    and "\<And>j. j < length (p_clients p) \<Longrightarrow> j \<noteq> i \<Longrightarrow> untouched (w_proc w) (p_clients (w_proc w) ! j) \<Longrightarrow>
      untouched p (p_clients p ! j)"
    and "\<And>k c. k \<in> set (w_tasks w) \<Longrightarrow> k = Adding c \<or> k = Building c \<Longrightarrow> untouched (w_proc w) c \<Longrightarrow>
      untouched p c"
  shows "fresh_ok (with_task w t (Retiring i reason s') p)"
proof -
  let ?ks = "(w_tasks w)[t := Retiring i reason s']"
  have t: "t < length (w_tasks w)" "w_tasks w ! t = Retiring i reason s"
    using assms(1) by (auto simp: at_task_def)
  have sub: "set ?ks \<subseteq> insert (Retiring i reason s') (set (w_tasks w))"
    by (rule set_update_subset_insert)
  have here: "Retiring i reason s' \<in> set ?ks"
    using t(1) by (rule set_update_memI)
  have kept: "Retiring j r s'' \<in> set ?ks \<or> j = i" if "Retiring j r s'' \<in> set (w_tasks w)" for j r s''
    using that t by (metis in_set_conv_nth length_list_update nth_list_update_neq task.inject(3))
  have "untouched p c" if "Adding c \<in> set ?ks \<or> Building c \<in> set ?ks" for c
    using that sub assms(2,5) by (fastforce simp: fresh_ok_def)
  moreover have "(\<exists>r s. Retiring j r s \<in> set ?ks) \<or> untouched p (p_clients p ! j)"
    if "j < length (p_clients p)" for j
    using that assms(2-4) here kept by (cases "j = i") (auto simp: fresh_ok_def, blast)
  ultimately show ?thesis
    by (simp add: fresh_ok_def)
qed

lemma retiring_kept:
  assumes "at_task w t k" and "Retiring j r s \<in> set (w_tasks w)" and "k \<noteq> Retiring j r s"
  shows "Retiring j r s \<in> set ((w_tasks w)[t := k'])"
  using assms unfolding at_task_def by (metis in_set_conv_nth length_list_update nth_list_update_neq)

lemma untouched_same [simp]:
  "untouched (on_client i f p) c = untouched p c" "untouched (gauge_sub p) c = untouched p c"
  "untouched (p\<lparr>p_live := n\<rparr>) c = untouched p c" "untouched (p\<lparr>p_clients := cs\<rparr>) c = untouched p c"
  by (simp_all add: untouched_def endpoint_closed_def)

lemma fresh_ok_step:
  assumes "step w w'" and "fresh_ok w" and "owned_ok w" and "history_ok w"
  shows "fresh_ok w'"
  using assms
proof (induction rule: step.induct)
  case (handshake_done e w recipe server_name addr)
  let ?p = "(w_proc w)\<lparr>p_endpoints := p_endpoints (w_proc w) @ [e]\<rparr>"
  have same: "untouched ?p c = untouched (w_proc w) c" if "qc_endpoint c \<in># owners w" for c
    using owner_bound [OF handshake_done(3) that] by (simp add: untouched_def endpoint_closed_def nth_append)
  have "untouched ?p (new_client (length (p_endpoints (w_proc w))) recipe server_name addr)"
    using handshake_done(1) by (simp add: untouched_def endpoint_closed_def new_client_def)
  moreover have "untouched ?p c" if "Adding c \<in> set (w_tasks w) \<or> Building c \<in> set (w_tasks w)" for c
    using that handshake_done(2) same [of c] pending_owner [of _ w "qc_endpoint c"]
    by (fastforce simp: fresh_ok_def)
  moreover have "untouched ?p (p_clients (w_proc w) ! j) = untouched (w_proc w) (p_clients (w_proc w) ! j)"
    if "j < length (p_clients (w_proc w))" for j
    by (rule same) (rule client_owner [OF that])
  ultimately show ?case
    using handshake_done(2) by (auto simp: fresh_ok_def)
next
  case (fetch_add w t c)
  then show ?case
    using set_update_subset_insert [of "w_tasks w" t "Building c"] at_task_mem [OF fetch_add(1)]
      retiring_kept [OF fetch_add(1), of _ _ _ "Building c"]
    by (fastforce simp: fresh_ok_def)
next
  case (build w t c)
  then show ?case
    using set_update_subset_insert [of "w_tasks w" t Connected] at_task_mem [OF build(1)]
      retiring_kept [OF build(1), of _ _ _ Connected]
    by (fastforce simp: fresh_ok_def nth_append less_Suc_eq)
next
  case (call i w reason)
  then show ?case
    by (fastforce simp: fresh_ok_def)
next
  case (close_conn w t i reason)
  show ?case
    by (rule fresh_ok_retiring [OF close_conn(1,2)]) (auto simp: nth_apply_at)
next
  case (abort w t i reason)
  show ?case
    by (rule fresh_ok_retiring [OF abort(1,2)]) (auto simp: nth_apply_at)
next
  case (close_end w t i reason)
  have i: "i < length (p_clients (w_proc w))"
    using close_end(4) at_task_mem [OF close_end(1)] by (auto simp: history_ok_def)
  note e = owner_bound [OF close_end(3) client_owner [OF i]]
  show ?case
  proof (rule fresh_ok_retiring [OF close_end(1,2)])
    show "untouched (close_endpoint (qc_endpoint (p_clients (w_proc w) ! i)) (w_proc w)) c"
      if "k \<in> set (w_tasks w)" "k = Adding c \<or> k = Building c" "untouched (w_proc w) c" for k c
      using that pending_owns_apart [OF close_end(3) i that(1), of "qc_endpoint c"]
      by (auto simp: untouched_def endpoint_closed_close_endpoint [OF e])
  qed (use clients_own_apart [OF close_end(3)] i in
      \<open>auto simp: untouched_def endpoint_closed_close_endpoint [OF e]\<close>)
next
  case (swap_first w t i reason)
  show ?case
    by (rule fresh_ok_retiring [OF swap_first(1,3)]) (auto simp: nth_apply_at)
next
  case (swap_again w t i reason)
  show ?case
    by (rule fresh_ok_retiring [OF swap_again(1,3)]) (auto simp: nth_apply_at)
next
  case (fetch_sub w t i reason)
  show ?case
    by (rule fresh_ok_retiring [OF fetch_sub(1,2)]) auto
qed

section \<open>The gauge\<close>

text \<open>
  What the gauge holds: one for each client that is not retired, and one for each thread that has
  added and not yet built its client, or swapped the flag and not yet subtracted.
\<close>

definition open_weight :: "quic_client \<Rightarrow> u64" where
  "open_weight c = (if qc_retired c then 0 else 1)"

fun held :: "task \<Rightarrow> u64" where
  "held (Building c) = 1"
| "held (Retiring i reason Sub_gauge) = 1"
| "held k = 0"

definition gauge_ok :: "'c world \<Rightarrow> bool" where
  "gauge_ok w \<longleftrightarrow>
     p_live (w_proc w) = sum_list (map open_weight (p_clients (w_proc w))) + sum_list (map held (w_tasks w))"

lemma gauge_ok_with_task:
  assumes "at_task w t k" and "gauge_ok w"
    and "p_live p + sum_list (map open_weight (p_clients (w_proc w))) + held k
      = p_live (w_proc w) + sum_list (map open_weight (p_clients p)) + held k'"
  shows "gauge_ok (with_task w t k' p)"
proof -
  have tasks: "sum_list (map held (w_tasks w)) + held k' = sum_list (map held ((w_tasks w)[t := k'])) + held k"
    using assms(1) sum_list_map_update [of t "w_tasks w" held k'] by (simp add: at_task_def)
  have "p_live p + held k = sum_list (map open_weight (p_clients p)) + (sum_list (map held (w_tasks w)) + held k')"
    using assms(2,3) by (simp add: gauge_ok_def algebra_simps)
  then show ?thesis
    unfolding tasks gauge_ok_def world_simps add.assoc [symmetric] by (rule add_right_imp_eq)
qed

lemma sum_open_weight_on_client:
  "i < length (p_clients p) \<Longrightarrow>
     sum_list (map open_weight ((p_clients p)[i := f (p_clients p ! i)])) + open_weight (p_clients p ! i)
       = sum_list (map open_weight (p_clients p)) + open_weight (f (p_clients p ! i))"
  by (rule sum_list_map_update)

lemma gauge_ok_step:
  assumes "step w w'" and "gauge_ok w" and "fresh_ok w" and "history_ok w"
  shows "gauge_ok w'"
  using assms
proof (induction rule: step.induct)
  case (handshake_done e w recipe server_name addr)
  then show ?case
    by (simp add: gauge_ok_def)
next
  case (call i w reason)
  then show ?case
    by (simp add: gauge_ok_def)
next
  case (fetch_add w t c)
  show ?case
    by (rule gauge_ok_with_task [OF fetch_add(1,2)]) simp
next
  case (build w t c)
  have "\<not> qc_retired c"
    using build(3) at_task_mem [OF build(1)] by (auto simp: fresh_ok_def untouched_def)
  then show ?case
    by (intro gauge_ok_with_task [OF build(1,2)]) (simp add: open_weight_def)
next
  case (close_conn w t i reason)
  have "i < length (p_clients (w_proc w))"
    using close_conn(4) at_task_mem [OF close_conn(1)] by (auto simp: history_ok_def)
  from sum_open_weight_on_client [OF this, of "conn_close reason"] show ?case
    by (intro gauge_ok_with_task [OF close_conn(1,2)]) (simp add: open_weight_def)
next
  case (abort w t i reason)
  have "i < length (p_clients (w_proc w))"
    using abort(4) at_task_mem [OF abort(1)] by (auto simp: history_ok_def)
  from sum_open_weight_on_client [OF this, of abort_driver] show ?case
    by (intro gauge_ok_with_task [OF abort(1,2)]) (simp add: open_weight_def)
next
  case (close_end w t i reason)
  show ?case
    by (rule gauge_ok_with_task [OF close_end(1,2)]) simp
next
  case (swap_first w t i reason)
  have "i < length (p_clients (w_proc w))"
    using swap_first(5) at_task_mem [OF swap_first(1)] by (auto simp: history_ok_def)
  from sum_open_weight_on_client [OF this, of set_retired] swap_first(2) show ?case
    by (intro gauge_ok_with_task [OF swap_first(1,3)]) (simp add: open_weight_def)
next
  case (swap_again w t i reason)
  have "i < length (p_clients (w_proc w))"
    using swap_again(5) at_task_mem [OF swap_again(1)] by (auto simp: history_ok_def)
  from sum_open_weight_on_client [OF this, of set_retired] swap_again(2) show ?case
    by (intro gauge_ok_with_task [OF swap_again(1,3)]) (simp add: open_weight_def)
next
  case (fetch_sub w t i reason)
  show ?case
    by (rule gauge_ok_with_task [OF fetch_sub(1,2)]) simp
qed

section \<open>The invariant\<close>

definition world_ok :: "'c world \<Rightarrow> bool" where
  "world_ok w \<longleftrightarrow> owned_ok w \<and> history_ok w \<and> fresh_ok w \<and> gauge_ok w"

lemma world_ok_start: "world_ok start"
  by (simp add: world_ok_def start_def no_proc_def owned_ok_def owners_def history_ok_def fresh_ok_def
      gauge_ok_def)

lemma world_ok_step: "world_ok w \<Longrightarrow> step w w' \<Longrightarrow> world_ok w'"
  by (auto simp: world_ok_def intro: owned_ok_step history_ok_step fresh_ok_step gauge_ok_step)

interpretation teardown: transition_invariant step world_ok
  by unfold_locales (rule world_ok_step)

lemma world_ok_reachable: "reachable w \<Longrightarrow> world_ok w"
  unfolding reachable_def by (rule teardown.reached [OF _ world_ok_start])

section \<open>Properties\<close>

text \<open>
  C26: Retiring a client closes its connection (keeping an earlier reason), aborts its driver, closes
  its endpoint and takes it out of the gauge exactly once, touches no other client, and a second
  retirement, whatever its reason, changes nothing.
\<close>

theorem retire_is_a_complete_teardown_once:
  assumes "i < length (p_clients p)" and "qc_endpoint (p_clients p ! i) < length (p_endpoints p)"
  shows "let p' = retire reason i p; c = p_clients p ! i; c' = p_clients p' ! i in
     qc_closed c' = Some (case qc_closed c of None \<Rightarrow> reason | Some r \<Rightarrow> r)
     \<and> qc_aborted c' \<and> qc_retired c' \<and> endpoint_closed p' c'
     \<and> p_live p' = p_live p - (if qc_retired c then 0 else 1)
     \<and> p_clients p' = (p_clients p)[i := c']
     \<and> retire reason' i p' = p'"
proof -
  let ?c = "p_clients p ! i"
  let ?e = "p_endpoints p ! qc_endpoint ?c"
  define c' where "c' = ?c\<lparr>qc_closed := Some (case qc_closed ?c of None \<Rightarrow> reason | Some r \<Rightarrow> r),
    qc_aborted := True, qc_retired := True\<rparr>"
  have c': "set_retired (abort_driver (conn_close reason ?c)) = c'"
    by (cases "qc_closed ?c") (simp_all add: c'_def set_retired_def abort_driver_def conn_close_def)
  have run: "retire reason i p =
      p\<lparr>p_live := p_live p - (if qc_retired ?c then 0 else 1),
        p_endpoints := (p_endpoints p)[qc_endpoint ?c := ?e\<lparr>ep_closed := True\<rparr>],
        p_clients := (p_clients p)[i := c']\<rparr>"
    using assms(1) by (simp add: retire_def on_client_def gauge_sub_def close_endpoint_def Let_def c')
  have facts: "qc_closed c' = Some (case qc_closed ?c of None \<Rightarrow> reason | Some r \<Rightarrow> r)"
    "qc_aborted c'" "qc_retired c'" "qc_endpoint c' = qc_endpoint ?c"
    by (simp_all add: c'_def)
  have again: "set_retired (abort_driver (conn_close reason' c')) = c'"
    by (simp add: c'_def set_retired_def abort_driver_def conn_close_def)
  have "retire reason' i (retire reason i p) = retire reason i p"
    using assms facts again unfolding run
    by (simp add: retire_def on_client_def gauge_sub_def close_endpoint_def Let_def)
  then show ?thesis
    using assms facts unfolding run by (simp add: Let_def endpoint_closed_def)
qed

definition sample_client :: "nat \<Rightarrow> quic_client" where
  "sample_client e = new_client e \<lparr>sr_bind = Addr_v4 0 0, sr_obf = None\<rparr> ''h'' (Addr_v4 7 443)"

definition sample_endpoint :: "unit endpoint" where
  "sample_endpoint = \<lparr>ep_bind = Addr_v4 0 0,
     ep_sock = \<lparr>cs_obf = None, cs_base = scripted_socket [] []\<rparr>,
     ep_config = (), ep_closed = False\<rparr>"

definition sample_proc :: "unit proc" where
  "sample_proc = \<lparr>p_live = 1, p_endpoints = [sample_endpoint], p_clients = [sample_client 0], p_clock = 0\<rparr>"

theorem retire_is_a_complete_teardown_once_witness:
  "client_drop 0 (client_close 0 sample_proc) = client_close 0 sample_proc
     \<and> p_live (client_close 0 sample_proc) = 0"
proof -
  have "0 < length (p_clients sample_proc)"
    "qc_endpoint (p_clients sample_proc ! 0) < length (p_endpoints sample_proc)"
    by (simp_all add: sample_proc_def sample_client_def new_client_def)
  from retire_is_a_complete_teardown_once [OF this, of "''client closed''" "''client dropped''"]
  show ?thesis
    by (simp add: Let_def client_drop_def client_close_def)
      (simp add: sample_proc_def sample_client_def new_client_def)
qed

lemma retire_tears_down:
  assumes "i < length (p_clients p)" and "qc_endpoint (p_clients p ! i) < length (p_endpoints p)"
  shows "p_live (retire reason i p) = p_live p - open_weight (p_clients p ! i)"
    and "p_endpoints (retire reason i p) =
      (p_endpoints p)[qc_endpoint (p_clients p ! i) :=
        (p_endpoints p ! qc_endpoint (p_clients p ! i))\<lparr>ep_closed := True\<rparr>]"
    and "length (p_clients (retire reason i p)) = length (p_clients p)"
    and "qc_retired (p_clients (retire reason i p) ! i)"
    and "qc_endpoint (p_clients (retire reason i p) ! i) = qc_endpoint (p_clients p ! i)"
  using assms by (simp_all add: retire_def on_client_def gauge_sub_def close_endpoint_def Let_def open_weight_def)

text \<open>
  C27: Connecting and then closing and dropping the client leaves nothing behind: the gauge is what it
  was, and every endpoint created on the way is closed.
\<close>

theorem connect_close_drop_leaves_nothing:
  assumes "connect q ck net host_port server_name cert p = Ret (Inr i, p')
    \<or> connect_obfuscated q ck net host_port server_name cert psk p = Ret (Inr i, p')"
  shows "let p'' = client_drop i (client_close i p') in
    p_live p'' = p_live p \<and> (\<exists>closed. p_endpoints p'' = p_endpoints p @ closed \<and> (\<forall>e \<in> set closed. ep_closed e))"
proof -
  have "clean_or_connected p (Inr i) p'"
    using assms by (rule connects_clean)
  then obtain closed e c where *: "\<forall>e \<in> set closed. ep_closed e"
    "p_endpoints p' = (p_endpoints p @ closed) @ [e]" "p_clients p' = p_clients p @ [c]"
    "i = length (p_clients p)" "qc_endpoint c = length (p_endpoints p @ closed)" "\<not> qc_retired c"
    "p_live p' = p_live p + 1"
    by (auto simp: clean_or_connected_def)
  let ?p1 = "retire ''client closed'' i p'"
  have c: "p_clients p' ! i = c" and i: "i < length (p_clients p')"
    and e: "qc_endpoint (p_clients p' ! i) < length (p_endpoints p')"
    using * by simp_all
  note t1 = retire_tears_down [OF i e, of "''client closed''"]
  have "p_endpoints ?p1 = (p_endpoints p @ closed) @ [e\<lparr>ep_closed := True\<rparr>]"
    unfolding t1(2) c *(2,5) nth_append_length list_update_length ..
  moreover have i1: "i < length (p_clients ?p1)" and e1: "qc_endpoint (p_clients ?p1 ! i) < length (p_endpoints ?p1)"
    using i e t1 by simp_all
  moreover note t2 = retire_tears_down [OF i1 e1, of "''client dropped''"]
  ultimately have "p_endpoints (retire ''client dropped'' i ?p1) = p_endpoints p @ closed @ [e\<lparr>ep_closed := True\<rparr>]"
    using t1(5) c *(5) by (simp add: list_update_append)
  moreover have "p_live (retire ''client dropped'' i ?p1) = p_live p"
    using t1(1,4) t2(1) c *(6,7) by (simp add: open_weight_def)
  ultimately show ?thesis
    using *(1) by (auto simp: client_drop_def client_close_def Let_def)
qed

theorem connect_close_drop_leaves_nothing_witness:
  "\<exists>p'. connect sample_quinn sample_checks (sample_net 0) ''h:443'' ''h'' [7] no_proc = Ret (Inr 0, p')
     \<and> p_live (client_drop 0 (client_close 0 p')) = 0"
proof -
  obtain p' where run: "connect sample_quinn sample_checks (sample_net 0) ''h:443'' ''h'' [7] no_proc
      = Ret (Inr 0, p')"
    using sample_connect [of 0] by blast
  with connect_close_drop_leaves_nothing [OF disjI1 [OF run]] show ?thesis
    by (simp add: Let_def no_proc_def)
qed

primrec between :: "task \<Rightarrow> bool" where
  "between (Adding c) = False"
| "between (Building c) = True"
| "between Connected = False"
| "between (Retiring i reason s) = (s = Sub_gauge)"

lemma held_between: "held k = (if between k then 1 else 0)"
  by (cases k rule: held.cases) simp_all

lemma sum_weights:
  "sum_list (map open_weight cs) = of_nat (length (filter (\<lambda>c. \<not> qc_retired c) cs))"
  "sum_list (map held ks) = of_nat (length (filter between ks))"
  by (induction cs, simp_all add: open_weight_def) (induction ks, simp_all add: held_between)

lemma ucast_of_nat_u32: "(ucast (of_nat n :: u64) :: u32) = of_nat n"
  by (rule bit_word_eqI) (auto simp: bit_simps)

text \<open>
  C3: In every interleaving of connecting threads, closes and drops, the gauge is the number of
  clients not yet retired plus the threads that are between the two halves of their update.
\<close>

theorem gauge_counts_open_connections:
  assumes "reachable w"
  shows "p_live (w_proc w) = of_nat (length (filter (\<lambda>c. \<not> qc_retired c) (p_clients (w_proc w)))
      + length (filter between (w_tasks w)))
    \<and> live_connections (w_proc w) = of_nat (length (filter (\<lambda>c. \<not> qc_retired c) (p_clients (w_proc w)))
      + length (filter between (w_tasks w)))"
proof -
  have "p_live (w_proc w) = of_nat (length (filter (\<lambda>c. \<not> qc_retired c) (p_clients (w_proc w)))
      + length (filter between (w_tasks w)))"
    using world_ok_reachable [OF assms] by (simp add: world_ok_def gauge_ok_def sum_weights)
  then show ?thesis
    by (simp only: live_connections_def ucast_of_nat_u32)
qed

text \<open>A run for the witnesses: one client connects and one thread retires it.\<close>

lemma reachable_step: "reachable w \<Longrightarrow> step w w' \<Longrightarrow> reachable w'"
  unfolding reachable_def by (rule rtranclp.rtrancl_into_rtrancl)

lemma reachable_start: "reachable start"
  by (simp add: reachable_def)

lemma retire_run:
  assumes "at_task w t (Retiring i reason Close_conn)"
  shows "step\<^sup>*\<^sup>* w (with_task w t (Retiring i reason Returned) (retire reason i (w_proc w)))"
proof -
  let ?k = "Retiring i reason"
  let ?p1 = "on_client i (conn_close reason) (w_proc w)"
  let ?p2 = "on_client i abort_driver ?p1"
  let ?p3 = "close_endpoint (qc_endpoint (p_clients ?p2 ! i)) ?p2"
  let ?p4 = "on_client i set_retired ?p3"
  have at: "at_task (with_task w t k p) t k" for k p
    using assms by (simp add: at_task_def)
  have twice: "with_task (with_task w t k p) t k' p' = with_task w t k' p'" for k p k' p'
    by (simp add: with_task_def)
  have "step w (with_task w t (?k Abort_driver) ?p1)"
    by (rule step.close_conn [OF assms])
  moreover have "step (with_task w t (?k Abort_driver) ?p1) (with_task w t (?k Close_end) ?p2)"
    using step.abort [OF at [of "?k Abort_driver" ?p1]] unfolding twice by simp
  moreover have "step (with_task w t (?k Close_end) ?p2) (with_task w t (?k Swap_flag) ?p3)"
    using step.close_end [OF at [of "?k Close_end" ?p2]] unfolding twice by simp
  moreover have "step\<^sup>*\<^sup>* (with_task w t (?k Swap_flag) ?p3)
      (with_task w t (?k Returned) (retire reason i (w_proc w)))"
  proof (cases "qc_retired (p_clients ?p3 ! i)")
    case True
    have "step (with_task w t (?k Swap_flag) ?p3) (with_task w t (?k Returned) ?p4)"
      using step.swap_again [OF at [of "?k Swap_flag" ?p3]] True unfolding twice by simp
    with True show ?thesis
      by (simp add: retire_def Let_def)
  next
    case False
    have "step (with_task w t (?k Swap_flag) ?p3) (with_task w t (?k Sub_gauge) ?p4)"
      using step.swap_first [OF at [of "?k Swap_flag" ?p3]] False unfolding twice by simp
    moreover have "step (with_task w t (?k Sub_gauge) ?p4) (with_task w t (?k Returned) (gauge_sub ?p4))"
      using step.fetch_sub [OF at [of "?k Sub_gauge" ?p4]] unfolding twice by simp
    moreover have "retire reason i (w_proc w) = gauge_sub ?p4"
      using False by (simp add: retire_def Let_def)
    ultimately show ?thesis
      by (metis converse_rtranclp_into_rtranclp rtranclp.rtrancl_refl)
  qed
  ultimately show ?thesis
    by (meson converse_rtranclp_into_rtranclp)
qed

definition sample_world :: "task list \<Rightarrow> unit world" where
  "sample_world ks = \<lparr>w_proc = sample_proc, w_tasks = ks\<rparr>"

lemma sample_world_reachable: "reachable (sample_world [Connected])"
proof -
  let ?p = "\<lparr>p_live = 0, p_endpoints = [sample_endpoint], p_clients = [], p_clock = 0\<rparr> :: unit proc"
  let ?w1 = "\<lparr>w_proc = ?p, w_tasks = [Adding (sample_client 0)]\<rparr>"
  let ?w2 = "\<lparr>w_proc = ?p\<lparr>p_live := 1\<rparr>, w_tasks = [Building (sample_client 0)]\<rparr>"
  have "step start ?w1"
    using step.handshake_done [of sample_endpoint start "\<lparr>sr_bind = Addr_v4 0 0, sr_obf = None\<rparr>" "''h''" "Addr_v4 7 443"]
    by (simp add: sample_endpoint_def start_def no_proc_def spawn_def sample_client_def)
  moreover have "step ?w1 ?w2"
    using step.fetch_add [of ?w1 0 "sample_client 0"] by (simp add: at_task_def with_task_def)
  moreover have "step ?w2 (sample_world [Connected])"
    using step.build [of ?w2 0 "sample_client 0"]
    by (simp add: at_task_def with_task_def sample_world_def sample_proc_def)
  ultimately show ?thesis
    using reachable_start reachable_step by blast
qed

lemma sample_world_retired:
  "reachable \<lparr>w_proc = client_close 0 sample_proc, w_tasks = [Connected, Retiring 0 ''client closed'' Returned]\<rparr>"
proof -
  let ?w = "sample_world [Connected, Retiring 0 ''client closed'' Close_conn]"
  have "step (sample_world [Connected]) ?w"
    using step.call [of 0 "sample_world [Connected]" "''client closed''"]
    by (simp add: sample_world_def sample_proc_def spawn_def)
  moreover have "step\<^sup>*\<^sup>* ?w \<lparr>w_proc = client_close 0 sample_proc,
      w_tasks = [Connected, Retiring 0 ''client closed'' Returned]\<rparr>"
    using retire_run [of ?w 1 0 "''client closed''"]
    by (simp add: at_task_def with_task_def sample_world_def client_close_def)
  ultimately show ?thesis
    using sample_world_reachable unfolding reachable_def by (meson rtranclp.rtrancl_into_rtrancl rtranclp_trans)
qed

theorem gauge_counts_open_connections_witness:
  "live_connections (client_close 0 sample_proc) = 0"
  using gauge_counts_open_connections [OF sample_world_retired]
  by (simp add: client_close_def retire_def on_client_def gauge_sub_def close_endpoint_def Let_def
      sample_proc_def set_retired_def)

text \<open>
  C10: In every interleaving, a client that counts as retired has its connection closed, its driver
  aborted and its endpoint closed; and a client nobody asked to retire still has all three.
\<close>

theorem retired_means_torn_down:
  assumes "reachable w" and "i < length (p_clients (w_proc w))"
  shows "(qc_retired (p_clients (w_proc w) ! i) \<longrightarrow>
        qc_closed (p_clients (w_proc w) ! i) \<noteq> None \<and> qc_aborted (p_clients (w_proc w) ! i)
        \<and> endpoint_closed (w_proc w) (p_clients (w_proc w) ! i))
     \<and> ((\<exists>reason s. Retiring i reason s \<in> set (w_tasks w))
        \<or> qc_closed (p_clients (w_proc w) ! i) = None \<and> \<not> qc_aborted (p_clients (w_proc w) ! i)
          \<and> \<not> endpoint_closed (w_proc w) (p_clients (w_proc w) ! i)
          \<and> \<not> qc_retired (p_clients (w_proc w) ! i))"
  using world_ok_reachable [OF assms(1)] assms(2)
  by (auto simp: world_ok_def history_ok_def fresh_ok_def untouched_def done_before_def stage_order)

theorem retired_means_torn_down_witness:
  "endpoint_closed (client_close 0 sample_proc) (p_clients (client_close 0 sample_proc) ! 0)
     \<and> \<not> endpoint_closed sample_proc (p_clients sample_proc ! 0)"
proof -
  have i: "0 < length (p_clients (client_close 0 sample_proc))" "qc_retired (p_clients (client_close 0 sample_proc) ! 0)"
    by (simp_all add: client_close_def retire_def on_client_def gauge_sub_def close_endpoint_def Let_def sample_proc_def)
  have j: "0 < length (p_clients (w_proc (sample_world [Connected])))"
    by (simp add: sample_world_def sample_proc_def)
  from i retired_means_torn_down [OF sample_world_retired, of 0]
    retired_means_torn_down [OF sample_world_reachable j] show ?thesis
    by (simp add: sample_world_def)
qed

end
