(* ===== verification/Client_Rebind.thy ===== *)
theory Client_Rebind
  imports Client_Lifecycle
begin

text \<open>
  Moving a connection onto a fresh socket (\<open>QuicClient::rebind\<close> in \<open>src/src/client.rs\<close>).

  The loop looks at the connection, the new socket and the clock every 10 ms. What happens between
  two looks is a \<open>gap\<close>: the polls quinn's endpoint driver makes of the new socket (their buffers; what
  the kernel answers is in the socket), and what the connection and the clock then say. The socket is
  the one of \<open>Obf_Socket\<close>, so the arrivals the code reads are the counter that its own receive path
  keeps. The loop has no bound of its own besides the clock: it is a partial function, and that it
  returns is a theorem under the documented behaviour of \<open>tokio::time::sleep\<close>.

  The lemmas: \<open>rebind_wait_decides\<close> reads the loop as its first decisive look.
\<close>

section \<open>The loop\<close>

record gap =
  g_polls :: "(bytes list \<times> recv_meta list) list"
  g_close_reason :: "string option"
  g_udp_rx :: u64
  g_now :: duration

record rebind_env =
  rb_blake :: "bytes \<Rightarrow> bytes"
  rb_udp_rx_before :: u64
  rb_bind :: "socket_addr \<Rightarrow> unit io_result \<times> unit io_result \<times> unit io_result \<times> unit io_result \<times> spin_socket"
  rb_rebind_abstract :: "client_sock \<Rightarrow> unit io_result"
  rb_local_addr :: "socket_addr io_result"
  rb_start :: duration
  rb_gaps :: "nat \<Rightarrow> gap"
  rb_show_io :: "io_error \<Rightarrow> string"
  rb_show_addr :: "socket_addr \<Rightarrow> string"

text \<open>A panic in a poll ends the driver, not the caller of \<open>rebind\<close>.\<close>

fun drive :: "(bytes \<Rightarrow> bytes) \<Rightarrow> (bytes list \<times> recv_meta list) list \<Rightarrow> client_sock \<Rightarrow> client_sock" where
  "drive blake [] cs = cs"
| "drive blake (bm # bms) cs =
     (case endpoint_poll_recv blake cs bm of
        Panic \<Rightarrow> cs
      | Ret (p, bm', cs') \<Rightarrow> drive blake bms cs')"

text \<open>One turn of the loop up to the sleep: what is returned, or nothing yet.\<close>

definition look ::
  "rebind_env \<Rightarrow> socket_addr \<Rightarrow> duration \<Rightarrow> gap \<Rightarrow> client_sock \<Rightarrow> (anyhow + socket_addr) option" where
  "look env local deadline g cs =
     (case g_close_reason g of
        Some reason \<Rightarrow> Some (Inl [''connection died during migration: '' @ reason])
      | None \<Rightarrow>
          if 0 < received_datagrams (cs_base cs) \<and> rb_udp_rx_before env < g_udp_rx g then Some (Inr local)
          else if deadline \<le> g_now g then
            Some (Inl [''migration unconfirmed after '' @ show_nat (as_millis MIGRATION_PROOF_BUDGET)
              @ ''ms - peer did not answer on '' @ rb_show_addr env local])
          else None)"

partial_function (option) rebind_wait ::
  "rebind_env \<Rightarrow> socket_addr \<Rightarrow> duration \<Rightarrow> nat \<Rightarrow> client_sock
     \<Rightarrow> ((anyhow + socket_addr) \<times> client_sock) option" where
  "rebind_wait env local deadline i cs =
     (let g = rb_gaps env i; cs' = drive (rb_blake env) (g_polls g) cs in
      case look env local deadline g cs' of
        Some r \<Rightarrow> Some (r, cs')
      | None \<Rightarrow> rebind_wait env local deadline (i + 1) cs')"

section \<open>rebind\<close>

definition set_socket :: "nat \<Rightarrow> client_sock \<Rightarrow> 'c proc \<Rightarrow> 'c proc" where
  "set_socket e cs p = p\<lparr>p_endpoints := (p_endpoints p)[e := (p_endpoints p ! e)\<lparr>ep_sock := cs\<rparr>]\<rparr>"

definition bound_socket :: "rebind_env \<Rightarrow> socket_addr \<Rightarrow> spin_socket io_result" where
  "bound_socket env addr =
     (case rb_bind env addr of (std_bind, nonblocking, udp_state, from_std, st) \<Rightarrow>
        spin_bind std_bind nonblocking udp_state from_std st)"

definition rebind ::
  "rebind_env \<Rightarrow> nat \<Rightarrow> 'c proc \<Rightarrow> ((anyhow + socket_addr) \<times> 'c proc) option" where
  "rebind env i p =
     (let c = p_clients p ! i; recipe = qc_recipe c in
      case client_socket (bound_socket env (sr_bind recipe)) (sr_obf recipe) of
        Inl e \<Rightarrow> Some (Inl (context_of ''bind replacement socket'' [rb_show_io env e]), p)
      | Inr socket \<Rightarrow>
          (case rb_rebind_abstract env socket of
             Inl e \<Rightarrow> Some (Inl (context_of ''rebind endpoint'' [rb_show_io env e]), p)
           | Inr _ \<Rightarrow>
               (let p1 = set_socket (qc_endpoint c) socket p in
                case rb_local_addr env of
                  Inl e \<Rightarrow> Some (Inl (context_of ''local addr after rebind'' [rb_show_io env e]), p1)
                | Inr local \<Rightarrow>
                    (case rebind_wait env local (rb_start env + MIGRATION_PROOF_BUDGET) 0 socket of
                       None \<Rightarrow> None
                     | Some (r, socket') \<Rightarrow> Some (r, set_socket (qc_endpoint c) socket' p1)))))"

section \<open>The first decisive look\<close>

text \<open>The new socket as the loop sees it at its \<open>i\<close>-th look.\<close>

primrec socket_at :: "rebind_env \<Rightarrow> client_sock \<Rightarrow> nat \<Rightarrow> client_sock" where
  "socket_at env cs 0 = drive (rb_blake env) (g_polls (rb_gaps env 0)) cs"
| "socket_at env cs (Suc i) = drive (rb_blake env) (g_polls (rb_gaps env (Suc i))) (socket_at env cs i)"

definition look_at ::
  "rebind_env \<Rightarrow> socket_addr \<Rightarrow> duration \<Rightarrow> client_sock \<Rightarrow> nat \<Rightarrow> (anyhow + socket_addr) option" where
  "look_at env local deadline cs i = look env local deadline (rb_gaps env i) (socket_at env cs i)"

text \<open>The socket before the \<open>i\<close>-th gap.\<close>

definition socket_before :: "rebind_env \<Rightarrow> client_sock \<Rightarrow> nat \<Rightarrow> client_sock" where
  "socket_before env cs i = (case i of 0 \<Rightarrow> cs | Suc j \<Rightarrow> socket_at env cs j)"

lemma socket_at_before:
  "socket_at env cs i = drive (rb_blake env) (g_polls (rb_gaps env i)) (socket_before env cs i)"
  by (cases i) (simp_all add: socket_before_def)

lemma rebind_wait_step:
  "rebind_wait env local deadline i (socket_before env cs i) =
     (case look_at env local deadline cs i of
        Some r \<Rightarrow> Some (r, socket_at env cs i)
      | None \<Rightarrow> rebind_wait env local deadline (Suc i) (socket_before env cs (Suc i)))"
proof -
  have "socket_before env cs (Suc i) = socket_at env cs i"
    by (simp add: socket_before_def)
  then show ?thesis
    by (subst rebind_wait.simps) (simp add: look_at_def socket_at_before Let_def split: option.split)
qed

lemma rebind_wait_some_look:
  assumes "rebind_wait env local deadline i cs' = Some y"
  shows "cs' = socket_before env cs i \<longrightarrow> (\<exists>n. look_at env local deadline cs n \<noteq> None)"
proof (rule rebind_wait.raw_induct [OF _ assms], rule impI)
  fix f env local deadline i cs' y
  assume IH: "\<And>env local deadline i cs' y. f env local deadline i cs' = Some y \<Longrightarrow>
      cs' = socket_before env cs i \<longrightarrow> (\<exists>n. look_at env local deadline cs n \<noteq> None)"
    and body: "(let g = rb_gaps env i; cs'' = drive (rb_blake env) (g_polls g) cs'
      in case look env local deadline g cs'' of
           None \<Rightarrow> f env local deadline (i + 1) cs'' | Some r \<Rightarrow> Some (r, cs'')) = Some y"
    and cs': "cs' = socket_before env cs i"
  have later: "drive (rb_blake env) (g_polls (rb_gaps env i)) cs' = socket_before env cs (i + 1)"
    using cs' by (simp add: socket_before_def socket_at_before)
  show "\<exists>n. look_at env local deadline cs n \<noteq> None"
  proof (cases "look_at env local deadline cs i")
    case None
    then have "f env local deadline (i + 1) (socket_before env cs (i + 1)) = Some y"
      using body later cs' by (simp add: look_at_def Let_def socket_at_before)
    from IH [OF this] show ?thesis
      by simp
  qed auto
qed

interpretation waiting: polling_loop
  "\<lambda>i. rebind_wait env local deadline i (socket_before env cs i)"
  "\<lambda>i. map_option (\<lambda>r. (r, socket_at env cs i)) (look_at env local deadline cs i)"
  for env local deadline cs
proof unfold_locales
  show "rebind_wait env local deadline i (socket_before env cs i) =
      (case map_option (\<lambda>r. (r, socket_at env cs i)) (look_at env local deadline cs i) of
         None \<Rightarrow> rebind_wait env local deadline (Suc i) (socket_before env cs (Suc i))
       | Some r \<Rightarrow> Some r)" for i
    by (simp add: rebind_wait_step [of env local deadline i] split: option.split)
  show "\<exists>n. map_option (\<lambda>r. (r, socket_at env cs n)) (look_at env local deadline cs n) \<noteq> None"
    if "rebind_wait env local deadline 0 (socket_before env cs 0) = Some r" for r
    using rebind_wait_some_look [OF that] by auto
qed

lemma socket_before_0 [simp]: "socket_before env cs 0 = cs"
  by (simp add: socket_before_def)

lemma rebind_wait_decides:
  "rebind_wait env local deadline 0 cs = Some (r, cs') \<longleftrightarrow>
     (\<exists>n. look_at env local deadline cs n = Some r \<and> (\<forall>m < n. look_at env local deadline cs m = None)
        \<and> cs' = socket_at env cs n)"
  using waiting.decides [of env local deadline cs "(r, cs')"] by auto

lemma rebind_wait_returns:
  assumes "look_at env local deadline cs n = Some r" and "\<forall>m < n. look_at env local deadline cs m = None"
  shows "rebind_wait env local deadline 0 cs = Some (r, socket_at env cs n)"
  using assms rebind_wait_decides by blast

lemma drive_obf [simp]: "cs_obf (drive blake bms cs) = cs_obf cs"
proof (induction bms arbitrary: cs)
  case (Cons bm bms)
  show ?case
  proof (cases "endpoint_poll_recv blake cs bm")
    case (Ret x)
    obtain p bm' cs' where x: "x = (p, bm', cs')"
      by (rule prod_cases3)
    have "cs_obf cs' = cs_obf cs"
      using Ret x by (auto simp: endpoint_poll_recv_def rust_bind_eq_Ret)
    with Cons [of cs'] Ret x show ?thesis
      by simp
  qed simp
qed simp

lemma socket_at_obf [simp]: "cs_obf (socket_at env cs n) = cs_obf cs"
  by (induction n) simp_all

section \<open>Properties\<close>


lemma set_socket_simps [simp]:
  "p_live (set_socket e cs p) = p_live p" "p_clients (set_socket e cs p) = p_clients p"
  "p_endpoints (set_socket e cs p) = (p_endpoints p)[e := (p_endpoints p ! e)\<lparr>ep_sock := cs\<rparr>]"
  by (simp_all add: set_socket_def)

lemma set_socket_twice [simp]: "set_socket e cs' (set_socket e cs p) = set_socket e cs' p"
proof (cases "e < length (p_endpoints p)")
  case True
  then show ?thesis
    unfolding set_socket_def by simp
next
  case False
  then show ?thesis
    unfolding set_socket_def by (simp add: list_update_beyond)
qed

lemma rebind_set_up:
  assumes "bound_socket env (sr_bind (qc_recipe (p_clients p ! i))) = Inr base"
    and "cs = \<lparr>cs_obf = sr_obf (qc_recipe (p_clients p ! i)), cs_base = base\<rparr>"
    and "rb_rebind_abstract env cs = Inr ()" and "rb_local_addr env = Inr local"
  shows "rebind env i p = Some (r, p') \<longleftrightarrow>
    (\<exists>cs'. rebind_wait env local (rb_start env + MIGRATION_PROOF_BUDGET) 0 cs = Some (r, cs')
       \<and> p' = set_socket (qc_endpoint (p_clients p ! i)) cs' p)"
  using assms by (auto simp: rebind_def client_socket_def Let_def split: option.splits)


text \<open>However often a client changes sockets, and however that ends, its datagrams keep their form.\<close>

definition rebinds :: "nat \<Rightarrow> 'c proc \<Rightarrow> 'c proc \<Rightarrow> bool" where
  "rebinds i p p' \<longleftrightarrow> (\<exists>env r. rebind env i p = Some (r, p'))"

definition keeps_recipe :: "nat \<Rightarrow> 'c proc \<Rightarrow> bool" where
  "keeps_recipe i p \<longleftrightarrow>
     cs_obf (ep_sock (p_endpoints p ! qc_endpoint (p_clients p ! i))) = sr_obf (qc_recipe (p_clients p ! i))"

lemma set_socket_recipe:
  "keeps_recipe i p \<Longrightarrow> cs_obf cs = sr_obf (qc_recipe (p_clients p ! i)) \<Longrightarrow>
     keeps_recipe i (set_socket (qc_endpoint (p_clients p ! i)) cs p)"
  by (cases "qc_endpoint (p_clients p ! i) < length (p_endpoints p)") (simp_all add: keeps_recipe_def list_update_beyond)

lemma rebind_keeps_recipe:
  assumes "rebind env i p = Some (r, p')" and "keeps_recipe i p"
  shows "keeps_recipe i p' \<and> p_clients p' = p_clients p"
proof -
  let ?c = "p_clients p ! i"
  have "p' = p \<or> (\<exists>cs. cs_obf cs = sr_obf (qc_recipe ?c) \<and> p' = set_socket (qc_endpoint ?c) cs p)"
    using assms(1) by (auto simp: rebind_def client_socket_def Let_def rebind_wait_decides
        split: sum.splits option.splits intro!: exI)
  with set_socket_recipe [OF assms(2)] assms(2) show ?thesis
    by auto
qed

interpretation handovers: transition_invariant "rebinds i" "\<lambda>p. keeps_recipe i p \<and> p_clients p = cs"
  for i cs
  by unfold_locales (auto simp: rebinds_def dest: rebind_keeps_recipe)

text \<open>An obfuscated client whose new socket receives one datagram of three bytes.\<close>

definition sample_rebind_env :: "bytes \<Rightarrow> u64 \<Rightarrow> rebind_env" where
  "sample_rebind_env d udp_rx =
     \<lparr>rb_blake = (\<lambda>_. replicate 32 1), rb_udp_rx_before = 5,
      rb_bind = (\<lambda>_. (Inr (), Inr (), Inr (), Inr (), sample_socket d)),
      rb_rebind_abstract = (\<lambda>_. Inr ()), rb_local_addr = Inr (Addr_v4 0 5000), rb_start = 0,
      rb_gaps = (\<lambda>k. \<lparr>g_polls = (if k = 0 then [([replicate 12 0], [sample_meta])] else []),
                      g_close_reason = None, g_udp_rx = udp_rx, g_now = k * from_millis 10\<rparr>),
      rb_show_io = (\<lambda>_. ''io''), rb_show_addr = (\<lambda>_. ''addr'')\<rparr>"

definition sample_obf_proc :: "unit proc" where
  "sample_obf_proc = sample_proc\<lparr>p_clients :=
     [(sample_client 0)\<lparr>qc_recipe := \<lparr>sr_bind = Addr_v4 0 0, sr_obf = Some \<lparr>sal_psk = [9]\<rparr>\<rparr>\<rparr>]\<rparr>"

definition sample_new_socket :: "bytes \<Rightarrow> client_sock" where
  "sample_new_socket d = \<lparr>cs_obf = Some \<lparr>sal_psk = [9]\<rparr>, cs_base = sample_socket d\<rparr>"

lemma sample_poll:
  "endpoint_poll_recv (\<lambda>_. replicate 32 1) (sample_new_socket [1, 2, 3]) ([replicate 12 0], [sample_meta]) =
     Ret (Ready (Inr 1), ([[1, 2, 3] @ replicate 9 0], [sample_meta]),
          (sample_new_socket [1, 2, 3])\<lparr>cs_base := (sample_socket [1, 2, 3])\<lparr>spin_received := 1, spin_reads := []\<rparr>\<rparr>)"
  by (simp add: endpoint_poll_recv_def obf_poll_recv_def spin_poll_recv_def sample_socket_def recv_disposition_of_def
      sample_new_socket_def deliver_one_def slice_simps deobfuscate_in_place_def SALT_LEN_def sample_meta_def)

lemma sample_rebind:
  "\<exists>p'. rebind (sample_rebind_env [1, 2, 3] 6) 0 sample_obf_proc = Some (Inr (Addr_v4 0 5000), p')"
proof -
  let ?env = "sample_rebind_env [1, 2, 3] 6" and ?cs = "sample_new_socket [1, 2, 3]"
  have "bound_socket ?env a = Inr (sample_socket [1, 2, 3])" for a
    by (simp add: bound_socket_def spin_bind_def spin_wrap_def sample_rebind_env_def sample_socket_def)
  moreover have "look_at ?env (Addr_v4 0 5000) d ?cs 0 = Some (Inr (Addr_v4 0 5000))" for d
    using sample_poll
    by (simp add: look_at_def look_def sample_rebind_env_def received_datagrams_def)
  then have "rebind_wait ?env (Addr_v4 0 5000) d 0 ?cs = Some (Inr (Addr_v4 0 5000), socket_at ?env ?cs 0)" for d
    by (intro rebind_wait_returns) simp_all
  ultimately show ?thesis
    using rebind_set_up [of ?env sample_obf_proc 0 "sample_socket [1, 2, 3]" ?cs "Addr_v4 0 5000"]
    by (simp add: sample_obf_proc_def sample_new_socket_def) (simp add: sample_rebind_env_def)
qed



text \<open>
  Once the new socket is in place, a rebind returns what the first decisive look says, and waits
  on as long as there is none; a look is decisive when the connection died, both proofs are there, or
  the budget is used up, and it says so in this order.
\<close>

theorem rebind_returns_the_first_decisive_look:
  assumes "bound_socket env (sr_bind (qc_recipe (p_clients p ! i))) = Inr base"
    and "cs = \<lparr>cs_obf = sr_obf (qc_recipe (p_clients p ! i)), cs_base = base\<rparr>"
    and "rb_rebind_abstract env cs = Inr ()" and "rb_local_addr env = Inr local"
  shows "rebind env i p = Some (r, p') \<longleftrightarrow>
     (\<exists>n. look_at env local (rb_start env + MIGRATION_PROOF_BUDGET) cs n = Some r
        \<and> (\<forall>m < n. look_at env local (rb_start env + MIGRATION_PROOF_BUDGET) cs m = None)
        \<and> p' = set_socket (qc_endpoint (p_clients p ! i)) (socket_at env cs n) p)"
  unfolding rebind_set_up [OF assms] rebind_wait_decides by blast

theorem rebind_returns_the_first_decisive_look_witness:
  "\<exists>n. look_at (sample_rebind_env [1, 2, 3] 6) (Addr_v4 0 5000) MIGRATION_PROOF_BUDGET
      (sample_new_socket [1, 2, 3]) n = Some (Inr (Addr_v4 0 5000))"
proof -
  let ?env = "sample_rebind_env [1, 2, 3] 6"
  have "bound_socket ?env (sr_bind (qc_recipe (p_clients sample_obf_proc ! 0))) = Inr (sample_socket [1, 2, 3])"
    by (simp add: bound_socket_def spin_bind_def spin_wrap_def sample_rebind_env_def sample_socket_def)
  moreover have "sample_new_socket [1, 2, 3] =
      \<lparr>cs_obf = sr_obf (qc_recipe (p_clients sample_obf_proc ! 0)), cs_base = sample_socket [1, 2, 3]\<rparr>"
    by (simp add: sample_obf_proc_def sample_new_socket_def)
  moreover have "rb_rebind_abstract ?env (sample_new_socket [1, 2, 3]) = Inr ()"
    "rb_local_addr ?env = Inr (Addr_v4 0 5000)" "rb_start ?env = 0"
    by (simp_all add: sample_rebind_env_def)
  ultimately show ?thesis
    using sample_rebind
      rebind_returns_the_first_decisive_look [of ?env sample_obf_proc 0 "sample_socket [1, 2, 3]"
        "sample_new_socket [1, 2, 3]" "Addr_v4 0 5000" "Inr (Addr_v4 0 5000)"] by auto
qed

text \<open>
  C28: A rebind returns. If every sleep takes at least its 10 ms, the look after the 150th sleep is past
  the budget, so some look up to it is decisive.
\<close>

theorem rebind_returns:
  assumes "\<And>k. rb_start env + k * MIGRATION_POLL_INTERVAL \<le> g_now (rb_gaps env k)"
  shows "(\<exists>r p'. rebind env i p = Some (r, p'))
     \<and> (\<exists>n \<le> 150. look_at env local (rb_start env + MIGRATION_PROOF_BUDGET) cs n \<noteq> None)"
proof
  have decisive: "look_at env local (rb_start env + MIGRATION_PROOF_BUDGET) cs 150 \<noteq> None" for local cs
    using assms [of 150] by (auto simp: look_at_def look_def budget_defs split: option.splits)
  then show "\<exists>n \<le> 150. look_at env local (rb_start env + MIGRATION_PROOF_BUDGET) cs n \<noteq> None"
    by blast
  have waits: "\<exists>r cs'. rebind_wait env local (rb_start env + MIGRATION_PROOF_BUDGET) 0 cs = Some (r, cs')"
    for local cs
    using waiting.returns [of env cs 150 local "rb_start env + MIGRATION_PROOF_BUDGET"] decisive
    by fastforce
  show "\<exists>r p'. rebind env i p = Some (r, p')"
  proof (cases "\<exists>cs local. client_socket (bound_socket env (sr_bind (qc_recipe (p_clients p ! i))))
      (sr_obf (qc_recipe (p_clients p ! i))) = Inr cs \<and> rb_rebind_abstract env cs = Inr ()
      \<and> rb_local_addr env = Inr local")
    case True
    then obtain cs local where "client_socket (bound_socket env (sr_bind (qc_recipe (p_clients p ! i))))
      (sr_obf (qc_recipe (p_clients p ! i))) = Inr cs" "rb_rebind_abstract env cs = Inr ()"
      "rb_local_addr env = Inr local"
      by blast
    with waits [of local cs] show ?thesis
      by (auto simp: rebind_def Let_def)
  next
    case False
    then show ?thesis
      by (auto simp: rebind_def Let_def split: sum.splits)
  qed
qed

theorem rebind_returns_witness:
  "\<exists>r p'. rebind (sample_rebind_env [] 5) 0 sample_obf_proc = Some (r, p')"
proof -
  have "rb_start (sample_rebind_env [] 5) + k * MIGRATION_POLL_INTERVAL
      \<le> g_now (rb_gaps (sample_rebind_env [] 5) k)" for k
    by (simp add: sample_rebind_env_def budget_defs)
  from rebind_returns [OF this] show ?thesis
    by blast
qed

text \<open>
  The proof is weaker than the documented one, that the peer was heard on the new socket: a rebind
  reports success when one datagram of any origin arrives on the new socket and the connection
  accepts another on the old one. Here the only datagram that ever arrives on the new socket is three
  bytes long, is handed to quinn as an empty one, and still counts as the proof.
\<close>

theorem rebind_takes_a_stranger_for_the_peer:
  "(\<exists>p'. rebind (sample_rebind_env [1, 2, 3] 6) 0 sample_obf_proc = Some (Inr (Addr_v4 0 5000), p'))
   \<and> (\<exists>bm bm' cs'. g_polls (rb_gaps (sample_rebind_env [1, 2, 3] 6) 0) = [bm]
        \<and> (\<forall>k. g_polls (rb_gaps (sample_rebind_env [1, 2, 3] 6) (Suc k)) = [])
        \<and> endpoint_poll_recv (rb_blake (sample_rebind_env [1, 2, 3] 6)) (sample_new_socket [1, 2, 3]) bm
            = Ret (Ready (Inr 1), bm', cs')
        \<and> rm_len (snd bm' ! 0) = 0)"
  using sample_rebind sample_poll by (simp add: sample_rebind_env_def) (simp add: sample_meta_def)

end
