(* ===== verification/Shared_Call.thy ===== *)
theory Shared_Call
  imports Client_Stream
begin

text \<open>
  What a call of the FFI surface (\<open>QuicStream\<close> in \<open>src/src/ffi.rs\<close>) promises to the tasks that share
  it, without locks, queues and buffers: one byte stream from the peer of which every receive takes
  one whole frame or nothing, and one list of writes to which every send adds one whole frame. Every
  operation is atomic. The concurrent use of a call refines \<open>shared_step\<close> (in the theory \<open>Ffi\<close>).

  The lemma: what has been taken and what is ahead make up the messages of what has arrived.
\<close>

record shared_call =
  sc_arrived :: bytes
  sc_ahead :: bytes
  sc_got :: "bytes list"
  sc_put :: "h3_write list"

inductive shared_step :: "shared_call \<Rightarrow> shared_call \<Rightarrow> bool" where
  peer_sends: "shared_step c (c\<lparr>sc_arrived := sc_arrived c @ b, sc_ahead := sc_ahead c @ b\<rparr>)"
| receives: "take_frame (sc_ahead c) = (Some m, rest) \<Longrightarrow>
      shared_step c (c\<lparr>sc_ahead := rest, sc_got := sc_got c @ [m]\<rparr>)"
| sends: "shared_step c (c\<lparr>sc_put := sc_put c @ [Data (encode_frame m)]\<rparr>)"
| finishes: "shared_step c (c\<lparr>sc_put := sc_put c @ [Fin]\<rparr>)"

definition shared_ok :: "shared_call \<Rightarrow> bool" where
  "shared_ok c \<longleftrightarrow>
     split_frames (sc_arrived c)
       = (sc_got c @ fst (split_frames (sc_ahead c)), snd (split_frames (sc_ahead c)))"

interpretation shared: transition_invariant shared_step shared_ok
proof
  show "shared_step c c' \<Longrightarrow> shared_ok c \<Longrightarrow> shared_ok c'" for c c'
  proof (induction rule: shared_step.induct)
    case (peer_sends c b)
    with split_frames_append [of "sc_arrived c" b] split_frames_append [of "sc_ahead c" b] show ?case
      by (simp add: shared_ok_def)
  next
    case (receives c m rest)
    with split_frames_step [OF receives(1)] show ?case
      by (simp add: shared_ok_def)
  qed (simp_all add: shared_ok_def)
qed

end
