(* ===== verification/Udp_Process.thy ===== *)
theory Udp_Process
  imports Spin_Free_Socket
begin

text \<open>
  The sockets of one process (\<open>src/src/spin_free_socket.rs\<close>): \<open>RECV_ERRORS\<close> and \<open>SEND_ERRORS\<close> are
  statics that every socket counts into, \<open>received\<close> belongs to one socket. A handler of a socket reads
  and writes the statics as the fields of its own state: an operation of the process hands them to the
  socket and takes them back.

  The lemmas: what one poll and one send do to the counters (\<open>poll_counts\<close>, \<open>send_counts\<close>), and that
  over any run on any sockets no failure is missed or counted twice (\<open>udp_run_counts\<close>).
\<close>

record udp_process =
  up_recv_errors :: u64
  up_send_errors :: u64
  up_sockets :: "spin_socket list"

definition load_socket :: "udp_process \<Rightarrow> nat \<Rightarrow> spin_socket" where
  "load_socket up i =
     (up_sockets up ! i)\<lparr>spin_recv_errors := up_recv_errors up, spin_send_errors := up_send_errors up\<rparr>"

definition store_socket :: "nat \<Rightarrow> spin_socket \<Rightarrow> udp_process \<Rightarrow> udp_process" where
  "store_socket i st up =
     \<lparr>up_recv_errors = recv_errors st, up_send_errors = send_errors st, up_sockets = (up_sockets up)[i := st]\<rparr>"

text \<open>What happens to the sockets of a process: one is bound, quinn polls one, quinn sends on one.\<close>

datatype udp_event =
    Bind_socket "unit io_result" "unit io_result" "unit io_result" "unit io_result" spin_socket
  | Poll_socket nat "bytes list \<times> recv_meta list"
  | Send_on_socket nat transmit

fun udp_happens :: "int \<Rightarrow> udp_event \<Rightarrow> udp_process \<Rightarrow> udp_process rust" where
  "udp_happens emsgsize (Bind_socket a b c d st) up =
     (case spin_bind a b c d st of
        Inl e \<Rightarrow> Ret up
      | Inr st' \<Rightarrow> Ret (up\<lparr>up_sockets := up_sockets up @ [st']\<rparr>))"
| "udp_happens emsgsize (Poll_socket i bm) up =
     (if i < length (up_sockets up) then
        rust_bind (spin_poll_recv (load_socket up i) bm) (\<lambda>(p, bm', st). Ret (store_socket i st up))
      else Ret up)"
| "udp_happens emsgsize (Send_on_socket i tr) up =
     (if i < length (up_sockets up) then
        (let (r, st) = spin_try_send emsgsize (load_socket up i) tr in Ret (store_socket i st up))
      else Ret up)"

fun udp_run :: "int \<Rightarrow> udp_event list \<Rightarrow> udp_process \<Rightarrow> udp_process rust" where
  "udp_run emsgsize [] up = Ret up"
| "udp_run emsgsize (ev # evs) up = rust_bind (udp_happens emsgsize ev up) (udp_run emsgsize evs)"

section \<open>What is counted\<close>

text \<open>The failures among the answers a socket has still to give to its receives.\<close>

definition failures_ahead :: "spin_socket \<Rightarrow> nat" where
  "failures_ahead st = length (filter failing (spin_reads st))"

fun bound_failures :: "udp_event \<Rightarrow> nat" where
  "bound_failures (Bind_socket (Inr _) (Inr _) (Inr _) (Inr _) st) = failures_ahead st"
| "bound_failures _ = 0"

text \<open>Whether a send event loses its datagram, from the answer that is next.\<close>

fun loses :: "int \<Rightarrow> udp_process \<Rightarrow> udp_event \<Rightarrow> bool" where
  "loses emsgsize up (Send_on_socket i tr) \<longleftrightarrow>
     i < length (up_sockets up)
     \<and> (case spin_writes (up_sockets up ! i) of
          [] \<Rightarrow> False
        | w # ws \<Rightarrow> send_disposition_of emsgsize (w tr) = Failed)"
| "loses emsgsize up _ \<longleftrightarrow> False"

fun lost_sends :: "int \<Rightarrow> udp_event list \<Rightarrow> udp_process \<Rightarrow> nat" where
  "lost_sends emsgsize [] up = 0"
| "lost_sends emsgsize (ev # evs) up =
     of_bool (loses emsgsize up ev)
     + (case udp_happens emsgsize ev up of Panic \<Rightarrow> 0 | Ret up' \<Rightarrow> lost_sends emsgsize evs up')"

lemma spin_recv_loop_keeps_sends:
  "spin_recv_loop rounds bm st = Ret (p, bm', st') \<Longrightarrow>
     spin_send_errors st' = spin_send_errors st \<and> spin_writes st' = spin_writes st"
  by (auto simp: spin_recv_loop_settles settle_round_def split: list.splits recv_round.splits sum.splits)

lemma poll_counts:
  "\<exists>p bm' st'. spin_poll_recv st bm = Ret (p, bm', st')
     \<and> recv_errors st' + of_nat (failures_ahead st') = recv_errors st + of_nat (failures_ahead st)
     \<and> spin_send_errors st' = spin_send_errors st"
proof -
  obtain p bm' st' used where run: "spin_poll_recv st bm = Ret (p, bm', st')"
      and acc: "accounts st (spin_reads st) p st' used"
    using spin_recv_loop_accounts [where rounds = "spin_reads st" and bm = bm and st = st]
    by (auto simp: spin_poll_recv_def split: rust.splits)
  then have "failures_ahead st = length (filter failing used) + failures_ahead st'"
    by (simp add: failures_ahead_def accounts_def)
  with acc run spin_recv_loop_keeps_sends [where rounds = "spin_reads st" and bm = bm and st = st] show ?thesis
    by (auto simp: accounts_def spin_poll_recv_def)
qed

lemma send_counts:
  assumes "spin_try_send emsgsize st tr = (r, st')"
  shows "spin_recv_errors st' = spin_recv_errors st \<and> spin_reads st' = spin_reads st
    \<and> spin_received st' = spin_received st
    \<and> send_errors st' = send_errors st + of_bool (case spin_writes st of [] \<Rightarrow> False
        | w # ws \<Rightarrow> send_disposition_of emsgsize (w tr) = Failed)"
  using assms
  by (auto simp: spin_try_send_def send_errors_def send_disposition_of_def Let_def
      split: list.splits send_disposition.splits sum.splits if_splits)

lemma sum_list_update_eq:
  fixes f :: "'a \<Rightarrow> u64"
  assumes "i < length xs"
  shows "sum_list (map f (xs[i := y])) = sum_list (map f xs) - f (xs ! i) + f y"
  using sum_list_map_update [OF assms, of f y] by (simp add: algebra_simps)

abbreviation all_ahead :: "udp_process \<Rightarrow> u64" where
  "all_ahead up \<equiv> sum_list (map (\<lambda>st. of_nat (failures_ahead st)) (up_sockets up))"

lemma udp_happens_counts:
  "\<exists>up'. udp_happens emsgsize ev up = Ret up'
     \<and> up_recv_errors up' + all_ahead up' = up_recv_errors up + all_ahead up + of_nat (bound_failures ev)
     \<and> up_send_errors up' = up_send_errors up + of_bool (loses emsgsize up ev)"
proof (cases ev)
  case (Bind_socket a b c d st)
  then show ?thesis
    by (cases a; cases b; cases c; cases d)
      (auto simp: spin_bind_def spin_wrap_def failures_ahead_def)
next
  case (Poll_socket i bm)
  show ?thesis
  proof (cases "i < length (up_sockets up)")
    case True
    obtain p bm' st' where "spin_poll_recv (load_socket up i) bm = Ret (p, bm', st')"
      "recv_errors st' + of_nat (failures_ahead st')
         = recv_errors (load_socket up i) + of_nat (failures_ahead (load_socket up i))"
      "spin_send_errors st' = spin_send_errors (load_socket up i)"
      using poll_counts by blast
    with True Poll_socket show ?thesis
      by (auto simp: store_socket_def load_socket_def recv_errors_def send_errors_def failures_ahead_def
          sum_list_update_eq algebra_simps)
  qed (simp add: Poll_socket)
next
  case (Send_on_socket i tr)
  show ?thesis
  proof (cases "i < length (up_sockets up)")
    case True
    obtain r st' where run: "spin_try_send emsgsize (load_socket up i) tr = (r, st')"
      by fastforce
    with send_counts [OF run] True Send_on_socket show ?thesis
      by (auto simp: store_socket_def load_socket_def recv_errors_def send_errors_def failures_ahead_def
          sum_list_update_eq)
  qed (simp add: Send_on_socket)
qed

lemma udp_run_counts:
  "\<exists>up'. udp_run emsgsize evs up = Ret up'
     \<and> up_recv_errors up' + all_ahead up' = up_recv_errors up + all_ahead up + of_nat (sum_list (map bound_failures evs))
     \<and> up_send_errors up' = up_send_errors up + of_nat (lost_sends emsgsize evs up)"
proof (induction evs arbitrary: up)
  case (Cons ev evs)
  obtain up1 where ev: "udp_happens emsgsize ev up = Ret up1"
      "up_recv_errors up1 + all_ahead up1 = up_recv_errors up + all_ahead up + of_nat (bound_failures ev)"
      "up_send_errors up1 = up_send_errors up + of_bool (loses emsgsize up ev)"
    using udp_happens_counts by blast
  with Cons.IH [of up1] show ?case
    by (auto simp: algebra_simps)
qed simp

text \<open>The receive counter belongs to its socket: only a poll of that socket moves it.\<close>

lemma udp_happens_keeps_received:
  assumes "udp_happens emsgsize ev up = Ret up'" and "j < length (up_sockets up)" and "\<forall>bm. ev \<noteq> Poll_socket j bm"
  shows "j < length (up_sockets up') \<and> spin_received (up_sockets up' ! j) = spin_received (up_sockets up ! j)"
proof (cases ev)
  case (Bind_socket a b c d st)
  with assms(1,2) show ?thesis
    by (auto simp: nth_append split: sum.splits)
next
  case (Poll_socket i bm)
  with assms show ?thesis
    by (auto simp: rust_bind_eq_Ret store_socket_def split: if_splits)
next
  case (Send_on_socket i tr)
  obtain r st' where run: "spin_try_send emsgsize (load_socket up i) tr = (r, st')"
    by fastforce
  with send_counts [OF run] assms(1,2) Send_on_socket show ?thesis
    by (cases "j = i") (auto simp: store_socket_def load_socket_def split: if_splits)
qed

lemma udp_run_keeps_received:
  assumes "udp_run emsgsize evs up = Ret up'" and "j < length (up_sockets up)" and "\<forall>bm. Poll_socket j bm \<notin> set evs"
  shows "spin_received (up_sockets up' ! j) = spin_received (up_sockets up ! j)"
  using assms
proof (induction evs arbitrary: up)
  case (Cons ev evs)
  then obtain up1 where one: "udp_happens emsgsize ev up = Ret up1" "udp_run emsgsize evs up1 = Ret up'"
    by (auto simp: rust_bind_eq_Ret)
  moreover have "\<forall>bm. ev \<noteq> Poll_socket j bm"
    using Cons.prems(3) by auto
  ultimately show ?case
    using udp_happens_keeps_received [OF one(1), of j] Cons.IH [of up1] Cons.prems by simp
qed simp

section \<open>Properties\<close>

text \<open>
  C35: No failure is missed and none is counted twice, on whatever socket it happens. Whatever sockets
  a process binds, polls and sends on, in any order, nothing panics; the receive counter of the process
  and the failures its sockets have still to report always add up to the same number, and the send
  counter grows by exactly the datagrams that could not leave (both as 64-bit counters). A receive
  counter of a socket is moved by nothing but polls of that socket.
\<close>

theorem every_failure_is_counted_once:
  "\<exists>up'. udp_run emsgsize evs up = Ret up'
     \<and> up_recv_errors up' + all_ahead up' = up_recv_errors up + all_ahead up + of_nat (sum_list (map bound_failures evs))
     \<and> up_send_errors up' = up_send_errors up + of_nat (lost_sends emsgsize evs up)
     \<and> (\<forall>j < length (up_sockets up). (\<forall>bm. Poll_socket j bm \<notin> set evs) \<longrightarrow>
          received_datagrams (up_sockets up' ! j) = received_datagrams (up_sockets up ! j))"
  using udp_run_counts [of emsgsize evs up] udp_run_keeps_received [of emsgsize evs up]
  by (auto simp: received_datagrams_def)

definition sample_events :: "udp_event list" where
  "sample_events =
     [Bind_socket (Inr ()) (Inr ()) (Inr ()) (Inr ()) (scripted_socket [Attempt (Inl (Os_error 111 Connection_reset)) id] []),
      Poll_socket 1 ([], []), Poll_socket 1 ([], []),
      Send_on_socket 0 \<lparr>tx_destination = Addr_v4 7 443, tx_ecn = None, tx_contents = [1, 2], tx_segment_size = None,
        tx_src_ip = None\<rparr>]"

definition sample_process :: udp_process where
  "sample_process = \<lparr>up_recv_errors = 4, up_send_errors = 2,
     up_sockets = [scripted_socket [] [\<lambda>_. Inl (Os_error 65 Other)]]\<rparr>"

theorem every_failure_is_counted_once_witness:
  "\<exists>up'. udp_run 90 sample_events sample_process = Ret up'
     \<and> up_recv_errors up' = 5 \<and> up_send_errors up' = 3 \<and> received_datagrams (up_sockets up' ! 0) = 0"
  using every_failure_is_counted_once [of 90 sample_events sample_process]
  by (auto simp: sample_events_def sample_process_def scripted_socket_def spin_bind_def spin_wrap_def
      spin_poll_recv_def load_socket_def store_socket_def recv_disposition_of_def send_disposition_of_def
      spin_try_send_def recv_errors_def send_errors_def received_datagrams_def)

end
