(* ===== verification/Ffi.thy ===== *)
theory Ffi
  imports Client_Rebind Shared_Call Udp_Process "HOL-Library.Sublist"
begin

text \<open>
  The UniFFI surface (\<open>src/src/ffi.rs\<close>) and the diagnostics it carries (\<open>stats_string\<close> in
  \<open>src/src/client.rs\<close>).

  Every operation runs as a task of the crate's own runtime and its caller awaits the join handle:
  \<open>on_rt\<close>. A call's two halves stand behind two tokio mutexes; these are fair, so a half is a queue of
  tasks whose head holds the lock. \<open>ffi_step\<close> is the concurrent use of one call: tasks start, run when
  their turn comes, and go on when their caller has given up, since dropping a join handle detaches the
  task. A write of h3 is answered at once here; a send that waits for flow control is modelled in \<open>Ffi_Flow\<close>.

  The lemmas: what one receive takes out of the byte stream (\<open>recv_loop_takes\<close>); \<open>ffi_inv\<close>, an
  invariant of \<open>ffi_step\<close>; and that \<open>ffi_step\<close> refines the call of the theory \<open>Shared_Call\<close>, whose
  operations are atomic (\<open>call_use\<close>).
\<close>

section \<open>Errors and the runtime\<close>

datatype transport_error = Transport string

definition err :: "anyhow \<Rightarrow> transport_error" where
  "err e = Transport (show_chain e)"

definition map_err :: "anyhow + 'a \<Rightarrow> transport_error + 'a" where
  "map_err r = map_sum err id r"

text \<open>What joining a task answers: its value, or why there is none (it panicked, or was cancelled).\<close>

datatype 'a joined = Joined 'a | Join_error string

definition on_rt :: "(transport_error + 'a) joined \<Rightarrow> transport_error + 'a" where
  "on_rt j =
     (case j of
        Joined r \<Rightarrow> r
      | Join_error e \<Rightarrow> Inl (Transport (''transport runtime join: '' @ e)))"

definition transport_build_marker :: string where
  "transport_build_marker = ''quic-plain-relaxed-keepalive-2026-06-24''"

record grpc_header =
  gh_key :: string
  gh_value :: string

section \<open>QuicChannel\<close>

text \<open>
  A channel is the index of its client. A panic in the task is what the join reports; \<open>panicked\<close> is
  tokio's text for it.
\<close>

definition join_client :: "string \<Rightarrow> ((anyhow + nat) \<times> 'c proc) rust \<Rightarrow> 'c proc \<Rightarrow> (transport_error + nat) \<times> 'c proc" where
  "join_client panicked run p =
     (case run of
        Panic \<Rightarrow> (on_rt (Join_error panicked), p)
      | Ret (r, p') \<Rightarrow> (on_rt (Joined (map_err r)), p'))"

definition channel_connect ::
  "string \<Rightarrow> ('i, 'm, 'z) quinn_defaults \<Rightarrow> tls_checks \<Rightarrow> net \<Rightarrow> string \<Rightarrow> string \<Rightarrow> bytes
     \<Rightarrow> ('i, 'm, 'z) transport_config_scheme client_config proc
     \<Rightarrow> (transport_error + nat) \<times> ('i, 'm, 'z) transport_config_scheme client_config proc" where
  "channel_connect panicked q ck net host_port server_name trust_cert p =
     join_client panicked (connect q ck net host_port server_name trust_cert p) p"

definition channel_connect_obfuscated ::
  "string \<Rightarrow> ('i, 'm, 'z) quinn_defaults \<Rightarrow> tls_checks \<Rightarrow> net \<Rightarrow> string \<Rightarrow> string \<Rightarrow> bytes \<Rightarrow> bytes
     \<Rightarrow> ('i, 'm, 'z) transport_config_scheme client_config proc
     \<Rightarrow> (transport_error + nat) \<times> ('i, 'm, 'z) transport_config_scheme client_config proc" where
  "channel_connect_obfuscated panicked q ck net host_port server_name trust_cert psk p =
     join_client panicked (connect_obfuscated q ck net host_port server_name trust_cert psk p) p"

definition channel_open_stream ::
  "http_checks \<Rightarrow> (request \<Rightarrow> anyhow + h3_send \<times> h3_recv) \<Rightarrow> quic_client \<Rightarrow> string \<Rightarrow> grpc_header list
     \<Rightarrow> transport_error + (quic_send_stream \<times> quic_recv_stream)" where
  "channel_open_stream ck send_request c path metadata =
     (let md = map (\<lambda>m. (gh_key m, gh_value m)) metadata
      in case on_rt (Joined (map_err (open_stream ck send_request c path md))) of
           Inl e \<Rightarrow> Inl e
         | Inr stream \<Rightarrow> Inr (stream_split stream))"

definition channel_close :: "nat \<Rightarrow> 'c proc \<Rightarrow> 'c proc" where
  "channel_close i p = client_close i p"

definition channel_rebind :: "rebind_env \<Rightarrow> nat \<Rightarrow> 'c proc \<Rightarrow> ((transport_error + string) \<times> 'c proc) option" where
  "channel_rebind env i p =
     (case rebind env i p of
        None \<Rightarrow> None
      | Some (r, p') \<Rightarrow> Some (on_rt (Joined (map_err (map_sum id (rb_show_addr env) r))), p'))"

section \<open>Diagnostics\<close>

text \<open>What quinn counts; \<open>cs_close\<close> is the close reason as \<open>Debug\<close> prints it.\<close>

record conn_stats =
  cs_tx_datagrams :: u64
  cs_rx_datagrams :: u64
  cs_ping :: u64
  cs_rtt :: duration
  cs_lost :: u64
  cs_close :: string

definition stats_string :: "conn_stats \<Rightarrow> string" where
  "stats_string s =
     ''tx_pkts='' @ show_nat (unat (cs_tx_datagrams s))
     @ '' rx_pkts='' @ show_nat (unat (cs_rx_datagrams s))
     @ '' ping_tx='' @ show_nat (unat (cs_ping s))
     @ '' rtt='' @ show_nat (as_millis (cs_rtt s))
     @ ''ms lost='' @ show_nat (unat (cs_lost s))
     @ '' close='' @ cs_close s"

definition channel_connection_stats :: "conn_stats \<Rightarrow> transport_error + string" where
  "channel_connection_stats s = on_rt (Joined (Inr (stats_string s)))"

text \<open>The error counters are the statics of the process, whichever socket counted.\<close>

definition transport_runtime_stats :: "'c proc \<Rightarrow> nat \<Rightarrow> udp_process \<Rightarrow> string" where
  "transport_runtime_stats p alive_tasks up =
     ''conns='' @ show_nat (unat (live_connections p))
     @ '' tasks='' @ show_nat alive_tasks
     @ '' udprecv_err='' @ show_nat (unat (up_recv_errors up))
     @ '' udpsend_err='' @ show_nat (unat (up_send_errors up))"

definition runtime_alive_tasks :: "nat \<Rightarrow> nat" where
  "runtime_alive_tasks alive_tasks = alive_tasks"

section \<open>QuicStream\<close>

definition ffi_send_message :: "bytes \<Rightarrow> quic_send_stream \<Rightarrow> (transport_error + unit) \<times> quic_send_stream" where
  "ffi_send_message m s = (let (r, s') = half_send_message m s in (on_rt (Joined (map_err r)), s'))"

definition ffi_finish :: "quic_send_stream \<Rightarrow> (transport_error + unit) \<times> quic_send_stream" where
  "ffi_finish s = (let (r, s') = half_finish s in (on_rt (Joined (map_err r)), s'))"

definition ffi_recv_response :: "quic_recv_stream \<Rightarrow> transport_error + u16" where
  "ffi_recv_response r = on_rt (Joined (map_err (half_recv_response r)))"

definition ffi_recv_message ::
  "quic_recv_stream \<Rightarrow> (transport_error + bytes option) poll \<times> quic_recv_stream" where
  "ffi_recv_message r =
     (case half_recv_message r of
        (Pending, r') \<Rightarrow> (Pending, r')
      | (Ready x, r') \<Rightarrow> (Ready (on_rt (Joined (map_err x))), r'))"

definition ffi_recv_trailers ::
  "(bytes \<Rightarrow> string option) \<Rightarrow> quic_recv_stream \<Rightarrow> transport_error + grpc_header list" where
  "ffi_recv_trailers to_str r =
     (case on_rt (Joined (map_err (half_recv_trailers to_str r))) of
        Inl e \<Rightarrow> Inl e
      | Inr trailers \<Rightarrow> Inr (map (\<lambda>(k, v). \<lparr>gh_key = k, gh_value = v\<rparr>) trailers))"

section \<open>Concurrent use of one call\<close>

datatype send_op = Op_send bytes | Op_finish

definition run_send_op :: "send_op \<Rightarrow> quic_send_stream \<Rightarrow> (transport_error + unit) \<times> quic_send_stream" where
  "run_send_op op s = (case op of Op_send m \<Rightarrow> ffi_send_message m s | Op_finish \<Rightarrow> ffi_finish s)"

datatype recv_op = Op_response | Op_message | Op_trailers

datatype recv_result =
    Got_response "transport_error + u16"
  | Got_message "transport_error + bytes option"
  | Got_trailers "transport_error + grpc_header list"

definition run_recv_op ::
  "(bytes \<Rightarrow> string option) \<Rightarrow> recv_op \<Rightarrow> quic_recv_stream \<Rightarrow> recv_result poll \<times> quic_recv_stream" where
  "run_recv_op to_str op r =
     (case op of
        Op_response \<Rightarrow> (Ready (Got_response (ffi_recv_response r)), r)
      | Op_message \<Rightarrow>
          (case ffi_recv_message r of
             (Pending, r') \<Rightarrow> (Pending, r')
           | (Ready x, r') \<Rightarrow> (Ready (Got_message x), r'))
      | Op_trailers \<Rightarrow> (Ready (Got_trailers (ffi_recv_trailers to_str r)), r))"

text \<open>
  \<open>fs_send_done\<close> and \<open>fs_recv_done\<close> are what the tasks ended with, in order; a caller who has given up
  is in \<open>fs_gone\<close> and gets nothing. \<open>fs_arrived\<close> is every answer of the network so far. The head and the
  trailers are what h3 answers at the time; a task that waits for them is one that has not run yet.
\<close>

record ffi_stream =
  fs_send :: quic_send_stream
  fs_recv :: quic_recv_stream
  fs_send_queue :: "(nat \<times> send_op) list"
  fs_recv_queue :: "(nat \<times> recv_op) list"
  fs_gone :: "nat list"
  fs_send_done :: "(nat \<times> send_op \<times> (transport_error + unit)) list"
  fs_recv_done :: "(nat \<times> recv_result) list"
  fs_arrived :: "h3_read list"

inductive ffi_step :: "(bytes \<Rightarrow> string option) \<Rightarrow> ffi_stream \<Rightarrow> ffi_stream \<Rightarrow> bool" for to_str where
  start_send [step_intros]:
    "ffi_step to_str f (f\<lparr>fs_send_queue := fs_send_queue f @ [(t, op)]\<rparr>)"
| start_recv [step_intros]:
    "ffi_step to_str f (f\<lparr>fs_recv_queue := fs_recv_queue f @ [(t, op)]\<rparr>)"
| give_up [step_intros]:
    "ffi_step to_str f (f\<lparr>fs_gone := t # fs_gone f\<rparr>)"
| arrives [step_intros]:
    "ffi_step to_str f (f\<lparr>fs_recv := (fs_recv f)\<lparr>rs_inner := (rs_inner (fs_recv f))\<lparr>hr_reads :=
        hr_reads (rs_inner (fs_recv f)) @ [x]\<rparr>\<rparr>, fs_arrived := fs_arrived f @ [x]\<rparr>)"
| head_arrives [step_intros]:
    "ffi_step to_str f (f\<lparr>fs_recv := (fs_recv f)\<lparr>rs_inner := (rs_inner (fs_recv f))\<lparr>hr_head := h\<rparr>\<rparr>\<rparr>)"
| tail_arrives [step_intros]:
    "ffi_step to_str f (f\<lparr>fs_recv := (fs_recv f)\<lparr>rs_inner := (rs_inner (fs_recv f))\<lparr>hr_tail := h\<rparr>\<rparr>\<rparr>)"
| send_runs [step_intros]:
    "fs_send_queue f = (t, op) # q \<Longrightarrow> run_send_op op (fs_send f) = (r, s') \<Longrightarrow>
       ffi_step to_str f (f\<lparr>fs_send := s', fs_send_queue := q, fs_send_done := fs_send_done f @ [(t, op, r)]\<rparr>)"
| recv_waits [step_intros]:
    "fs_recv_queue f = (t, op) # q \<Longrightarrow> run_recv_op to_str op (fs_recv f) = (Pending, r') \<Longrightarrow>
       ffi_step to_str f (f\<lparr>fs_recv := r'\<rparr>)"
| recv_runs [step_intros]:
    "fs_recv_queue f = (t, op) # q \<Longrightarrow> run_recv_op to_str op (fs_recv f) = (Ready x, r') \<Longrightarrow>
       ffi_step to_str f (f\<lparr>fs_recv := r', fs_recv_queue := q, fs_recv_done := fs_recv_done f @ [(t, x)]\<rparr>)"

definition fresh_ffi_stream :: "quic_send_stream \<Rightarrow> quic_recv_stream \<Rightarrow> ffi_stream" where
  "fresh_ffi_stream s r = \<lparr>fs_send = s, fs_recv = r, fs_send_queue = [], fs_recv_queue = [], fs_gone = [],
     fs_send_done = [], fs_recv_done = [], fs_arrived = hr_reads (rs_inner r)\<rparr>"

definition ffi_reaches :: "(bytes \<Rightarrow> string option) \<Rightarrow> quic_send_stream \<Rightarrow> quic_recv_stream \<Rightarrow> ffi_stream \<Rightarrow> bool" where
  "ffi_reaches to_str s r f \<longleftrightarrow> (ffi_step to_str)\<^sup>*\<^sup>* (fresh_ffi_stream s r) f"

text \<open>The messages that receiving tasks took, and those whose caller was still there.\<close>

definition messages_in :: "(nat \<times> recv_result) list \<Rightarrow> bytes list" where
  "messages_in log = List.map_filter (\<lambda>(t, x). case x of Got_message (Inr m) \<Rightarrow> m | _ \<Rightarrow> None) log"

definition messages_taken :: "ffi_stream \<Rightarrow> bytes list" where
  "messages_taken f = messages_in (fs_recv_done f)"

definition messages_returned :: "ffi_stream \<Rightarrow> bytes list" where
  "messages_returned f = messages_in (filter (\<lambda>(t, x). t \<notin> set (fs_gone f)) (fs_recv_done f))"

section \<open>The invariant\<close>

fun bytes_of :: "h3_read list \<Rightarrow> bytes" where
  "bytes_of [] = []"
| "bytes_of (Chunk b # rs) = b @ bytes_of rs"
| "bytes_of (x # rs) = bytes_of rs"

lemma bytes_of_append [simp]: "bytes_of (a @ b) = bytes_of a @ bytes_of b"
  by (induction a rule: bytes_of.induct) simp_all

fun taken :: "(anyhow + bytes option) poll \<Rightarrow> bytes list" where
  "taken (Ready (Inr (Some m))) = [m]"
| "taken _ = []"

text \<open>One receive takes the first frame of what is buffered and on its way, or leaves all of it.\<close>

primrec takes :: "bytes list \<Rightarrow> bytes \<Rightarrow> bytes \<Rightarrow> bool" where
  "takes [] ahead ahead' \<longleftrightarrow> ahead' = ahead"
| "takes (m # ms) ahead ahead' \<longleftrightarrow> ms = [] \<and> take_frame ahead = (Some m, ahead')"

lemma recv_loop_takes:
  "recv_loop reads buf = (x, reads', buf') \<Longrightarrow>
     takes (taken x) (buf @ bytes_of reads) (buf' @ bytes_of reads')"
proof (induction reads buf rule: recv_loop.induct)
  case (1 reads buf)
  show ?case
  proof (cases "take_frame buf")
    case (Pair m b)
    show ?thesis
    proof (cases m)
      case None
      with Pair have t: "take_frame buf = (None, b)"
        by simp
      with take_frame_None have b: "b = buf"
        by blast
      show ?thesis
      proof (cases reads)
        case Nil
        with "1.prems" t b show ?thesis
          by (auto simp: recv_loop.simps [of "[]"])
      next
        case (Cons y rs)
        with "1.prems" "1.IH" [OF t [symmetric] refl Cons] t b show ?thesis
          by (cases y) (auto simp: recv_loop_chunk [OF t] recv_loop.simps [of "End_of_data # _"]
              recv_loop.simps [of "Read_error _ # _"])
      qed
    next
      case (Some m')
      with Pair have t: "take_frame buf = (Some m', b)"
        by simp
      with "1.prems" take_frame_append [OF t] show ?thesis
        by (auto simp: recv_loop_frame [OF t])
    qed
  qed
qed

definition ahead_bytes :: "quic_recv_stream \<Rightarrow> bytes" where
  "ahead_bytes r = rs_recv_buf r @ bytes_of (hr_reads (rs_inner r))"

definition ffi_taken :: "recv_result poll \<Rightarrow> bytes list" where
  "ffi_taken p = (case p of Ready x \<Rightarrow> messages_in [(0, x)] | Pending \<Rightarrow> [])"

lemma ffi_recv_message_takes:
  assumes "ffi_recv_message r = (p, r')"
  shows "takes (case p of Ready x \<Rightarrow> messages_in [(0, Got_message x)] | Pending \<Rightarrow> [])
    (ahead_bytes r) (ahead_bytes r')"
proof -
  obtain x reads buf where loop: "recv_loop (hr_reads (rs_inner r)) (rs_recv_buf r) = (x, reads, buf)"
    by (rule prod_cases3)
  have "taken x = (case p of Ready x \<Rightarrow> messages_in [(0, Got_message x)] | Pending \<Rightarrow> [])
      \<and> ahead_bytes r' = buf @ bytes_of reads"
    using assms loop
    by (cases x rule: taken.cases) (auto simp: ffi_recv_message_def half_recv_message_def ahead_bytes_def
        messages_in_def map_filter_simps on_rt_def map_err_def)
  with recv_loop_takes [OF loop] show ?thesis
    by (simp add: ahead_bytes_def)
qed

lemma run_recv_op_takes:
  assumes "run_recv_op to_str op r = (p, r')"
  shows "takes (ffi_taken p) (ahead_bytes r) (ahead_bytes r')"
proof (cases op)
  case Op_message
  obtain q r'' where m: "ffi_recv_message r = (q, r'')"
    by fastforce
  with assms Op_message ffi_recv_message_takes [OF m] show ?thesis
    by (cases q) (auto simp: run_recv_op_def ffi_taken_def)
qed (use assms in \<open>auto simp: run_recv_op_def ffi_taken_def messages_in_def map_filter_simps\<close>)

fun written :: "nat \<times> send_op \<times> (transport_error + unit) \<Rightarrow> h3_write list" where
  "written (t, Op_send m, Inr _) = [Data (encode_frame m)]"
| "written (t, Op_finish, Inr _) = [Fin]"
| "written (t, op, Inl e) = []"

lemma run_send_op_writes:
  assumes "run_send_op op s = (r, s')"
  shows "hw_written (ss_inner s') = hw_written (ss_inner s) @ written (t, op, r)"
proof (cases op)
  case (Op_send m)
  obtain r0 s0 where w: "h3_write (Data (encode_frame m)) (ss_inner s) = (r0, s0)"
    by fastforce
  with h3_write_result [OF w] assms Op_send show ?thesis
    by (cases r0) (auto simp: run_send_op_def ffi_send_message_def half_send_message_def Let_def with_context_def
        on_rt_def map_err_def)
next
  case Op_finish
  obtain r0 s0 where w: "h3_write Fin (ss_inner s) = (r0, s0)"
    by fastforce
  with h3_write_result [OF w] assms Op_finish show ?thesis
    by (cases r0) (auto simp: run_send_op_def ffi_finish_def half_finish_def Let_def with_context_def
        on_rt_def map_err_def)
qed

lemma messages_in_append: "messages_in (a @ b) = messages_in a @ messages_in b"
  by (simp add: messages_in_def map_filter_def)

lemma ffi_taken_Ready: "messages_in [(t, x)] = ffi_taken (Ready x)"
  by (simp add: ffi_taken_def messages_in_def map_filter_simps)

definition ffi_inv :: "quic_send_stream \<Rightarrow> ffi_stream \<Rightarrow> bool" where
  "ffi_inv s f \<longleftrightarrow>
     hw_written (ss_inner (fs_send f)) = hw_written (ss_inner s) @ concat (map written (fs_send_done f))"

lemma ffi_inv_start: "ffi_inv s (fresh_ffi_stream s r)"
  by (simp add: ffi_inv_def fresh_ffi_stream_def)

lemma ffi_inv_step: "ffi_step to_str f f' \<Longrightarrow> ffi_inv s f \<Longrightarrow> ffi_inv s f'"
proof (induction rule: ffi_step.induct)
  case (send_runs f t op q x s')
  from run_send_op_writes [OF send_runs(2), of t] send_runs(3) show ?case
    by (simp add: ffi_inv_def)
qed (simp_all add: ffi_inv_def)

section \<open>The use of a call refines a shared call\<close>

text \<open>\<open>r\<close> is the receiving half the call began with: what its buffer held has arrived, too.\<close>

definition shared_of :: "quic_recv_stream \<Rightarrow> ffi_stream \<Rightarrow> shared_call" where
  "shared_of r f = \<lparr>sc_arrived = rs_recv_buf r @ bytes_of (fs_arrived f), sc_ahead = ahead_bytes (fs_recv f),
     sc_got = messages_taken f, sc_put = hw_written (ss_inner (fs_send f))\<rparr>"

lemma shared_of_start:
  "shared_of r (fresh_ffi_stream s r) = \<lparr>sc_arrived = ahead_bytes r, sc_ahead = ahead_bytes r, sc_got = [],
     sc_put = hw_written (ss_inner s)\<rparr>"
  by (simp add: shared_of_def fresh_ffi_stream_def messages_taken_def messages_in_def map_filter_simps ahead_bytes_def)

lemma shared_of_sends:
  assumes "run_send_op op s = (x, s')" and "sc_put c = hw_written (ss_inner s)"
  shows "shared_step\<^sup>*\<^sup>* c (c\<lparr>sc_put := hw_written (ss_inner s')\<rparr>)"
  using run_send_op_writes [OF assms(1), of 0] shared_step.sends [of c] shared_step.finishes [of c]
  by (cases op; cases x) (auto simp: r_into_rtranclp assms(2) [symmetric])

lemma shared_of_step: "ffi_step to_str f f' \<Longrightarrow> shared_step\<^sup>*\<^sup>* (shared_of r f) (shared_of r f')"
proof (induction rule: ffi_step.induct)
  case (arrives f x)
  show ?case
    using shared_step.peer_sends [of "shared_of r f" "bytes_of [x]"]
    by (auto simp: shared_of_def ahead_bytes_def messages_taken_def)
next
  case (send_runs f t op q x s')
  from shared_of_sends [OF send_runs(2), of "shared_of r f"] show ?case
    by (simp add: shared_of_def messages_taken_def)
next
  case (recv_waits f t op q r')
  from run_recv_op_takes [OF recv_waits(2)] show ?case
    by (simp add: shared_of_def messages_taken_def ffi_taken_def)
next
  case (recv_runs f t op q x r')
  from run_recv_op_takes [OF recv_runs(2)] shared_step.receives [of "shared_of r f" _ "ahead_bytes r'"]
  show ?case
    by (cases "ffi_taken (Ready x)")
      (auto simp: shared_of_def messages_taken_def messages_in_append ffi_taken_Ready)
qed (simp_all add: shared_of_def messages_taken_def ahead_bytes_def)

interpretation call_use: refinement "ffi_step to_str" "ffi_inv s" shared_step "shared_of r"
  for to_str s r
  by unfold_locales (rule ffi_inv_step, assumption+, rule shared_of_step)

lemma ffi_reaches_inv: "ffi_reaches to_str s r f \<Longrightarrow> ffi_inv s f"
  unfolding ffi_reaches_def by (rule call_use.reached [OF _ ffi_inv_start])

lemma ffi_reaches_shared:
  assumes "ffi_reaches to_str s r f"
  shows "shared_step\<^sup>*\<^sup>* (shared_of r (fresh_ffi_stream s r)) (shared_of r f)"
    and "shared_ok (shared_of r f)"
proof -
  have "shared_ok (shared_of r (fresh_ffi_stream s r))"
    by (simp add: shared_of_start shared_ok_def)
  with assms show "shared_step\<^sup>*\<^sup>* (shared_of r (fresh_ffi_stream s r)) (shared_of r f)"
    "shared_ok (shared_of r f)"
    unfolding ffi_reaches_def
    using call_use.refines [OF _ ffi_inv_start] call_use.inherits [OF shared.transition_invariant_axioms _ ffi_inv_start]
    by blast+
qed

section \<open>Properties\<close>

text \<open>
  However many tasks send, receive and ask for the response or the trailers on one call at once,
  the receiving tasks between them take the messages of the byte stream once each and in order, and what is written is the whole frames of
  the sends that succeeded, one after the other, in the order in which they returned.
\<close>

theorem concurrent_tasks_share_one_call:
  assumes "ffi_reaches to_str s r f" and "rs_recv_buf r = []" and "hw_written (ss_inner s) = []"
  shows "prefix (messages_taken f) (fst (split_frames (bytes_of (fs_arrived f))))
    \<and> hw_written (ss_inner (fs_send f)) = concat (map written (fs_send_done f))"
  using ffi_reaches_inv [OF assms(1)] ffi_reaches_shared(2) [OF assms(1)] assms(2,3)
  by (simp add: ffi_inv_def shared_ok_def shared_of_def)

text \<open>
  C17: The concurrent use of one call looks atomic. Every run of tasks that start, wait for their half,
  run and are given up, with answers of the network between them, is a run of a call that has one byte
  stream from the peer and one list of writes: each receive takes the first whole frame that has arrived
  or nothing at all, each send and each finish adds its whole write, and no other step changes either;
  so the messages taken and those still ahead are always the messages of what has arrived.
\<close>

theorem concurrent_use_of_a_call_is_atomic:
  assumes "ffi_reaches to_str s r f"
  shows "shared_step\<^sup>*\<^sup>*
      \<lparr>sc_arrived = ahead_bytes r, sc_ahead = ahead_bytes r, sc_got = [], sc_put = hw_written (ss_inner s)\<rparr>
      (shared_of r f)
    \<and> shared_ok (shared_of r f)"
  using ffi_reaches_shared [OF assms] by (simp add: shared_of_start)

text \<open>
  The receiving half is one queue: behind a receive that waits for the peer, a task that asks for the
  response or the trailers waits too, until something has arrived.
\<close>

inductive_cases ffi_stepE: "ffi_step to_str f f'"

lemma a_waiting_receive_holds_up_the_queue:
  assumes "ffi_step to_str f f'" and "fs_recv_queue f = (t, Op_message) # q"
    and "ffi_recv_message (fs_recv f) = (Pending, r)"
  shows "fs_recv_done f' = fs_recv_done f \<and> (\<exists>q'. fs_recv_queue f' = (t, Op_message) # q')"
  using assms(1)
  by (rule ffi_stepE) (use assms(2,3) in \<open>auto simp: run_recv_op_def\<close>)

text \<open>A call whose peer sends one frame, and a run in which its receiver has given up.\<close>

definition sample_send :: quic_send_stream where
  "sample_send = \<lparr>ss_inner = \<lparr>hw_answers = [], hw_written = []\<rparr>\<rparr>"

definition sample_ffi :: "(nat \<times> recv_op) list \<Rightarrow> ffi_stream" where
  "sample_ffi recvs = (fresh_ffi_stream sample_send (sample_half [Chunk (encode_frame [7])]))
     \<lparr>fs_recv_queue := recvs, fs_gone := [1]\<rparr>"

lemma sample_recv_message:
  "ffi_recv_message (sample_half [Chunk (encode_frame [7])]) = (Ready (Inr (Some [7])), sample_half [])"
proof -
  have "take_frame (encode_frame [7]) = (Some [7], [])"
    using take_frame_encode [of "[7]" "[]"] by simp
  then have "recv_loop [Chunk (encode_frame [7])] [] = (Ready (Inr (Some [7])), [], [])"
    using recv_loop_chunk [of "[]" "[]" "encode_frame [7]" "[]"] by (simp add: recv_loop_frame)
  then show ?thesis
    by (simp add: ffi_recv_message_def half_recv_message_def sample_half_def sample_recv_def on_rt_def map_err_def)
qed

lemma three_steps: "r a b \<Longrightarrow> r b c \<Longrightarrow> r c d \<Longrightarrow> r\<^sup>*\<^sup>* a d"
  by (rule converse_rtranclp_into_rtranclp, assumption)+ (rule rtranclp.rtrancl_refl)

lemma sample_ffi_run:
  "ffi_reaches to_str sample_send (sample_half [Chunk (encode_frame [7])])
     ((sample_ffi [])\<lparr>fs_recv := sample_half [], fs_recv_done := [(1, Got_message (Inr (Some [7])))]\<rparr>)"
proof -
  let ?r = "sample_half [Chunk (encode_frame [7])]"
  let ?f0 = "fresh_ffi_stream sample_send ?r"
  have "ffi_step to_str ?f0 (?f0\<lparr>fs_recv_queue := [(1, Op_message)]\<rparr>)"
    using ffi_step.start_recv [of to_str ?f0 1 Op_message] by (simp add: fresh_ffi_stream_def)
  moreover have "ffi_step to_str (?f0\<lparr>fs_recv_queue := [(1, Op_message)]\<rparr>) (sample_ffi [(1, Op_message)])"
    using ffi_step.give_up [of to_str "?f0\<lparr>fs_recv_queue := [(1, Op_message)]\<rparr>" 1] by (simp add: sample_ffi_def fresh_ffi_stream_def)
  moreover have "ffi_step to_str (sample_ffi [(1, Op_message)]) ((sample_ffi [])\<lparr>fs_recv := sample_half [], fs_recv_done := [(1, Got_message (Inr (Some [7])))]\<rparr>)"
    using ffi_step.recv_runs [of "sample_ffi [(1, Op_message)]" 1 Op_message "[]" to_str "Got_message (Inr (Some [7]))" "sample_half []"] sample_recv_message
    by (simp add: sample_ffi_def fresh_ffi_stream_def run_recv_op_def)
  ultimately show ?thesis
    unfolding ffi_reaches_def by (rule three_steps)
qed

theorem concurrent_tasks_share_one_call_witness:
  "prefix [[7]] (fst (split_frames (encode_frame [7])))"
proof -
  have "rs_recv_buf (sample_half [Chunk (encode_frame [7])]) = []" "hw_written (ss_inner sample_send) = []"
    by (simp_all add: sample_half_def sample_send_def)
  from concurrent_tasks_share_one_call [OF sample_ffi_run this] show ?thesis
    by (simp add: messages_taken_def messages_in_def map_filter_simps sample_ffi_def fresh_ffi_stream_def
        sample_half_def sample_recv_def)
qed

theorem concurrent_use_of_a_call_is_atomic_witness:
  "shared_step\<^sup>*\<^sup>*
      \<lparr>sc_arrived = encode_frame [7], sc_ahead = encode_frame [7], sc_got = [], sc_put = []\<rparr>
      \<lparr>sc_arrived = encode_frame [7], sc_ahead = [], sc_got = [[7]], sc_put = []\<rparr>"
  using concurrent_use_of_a_call_is_atomic [OF sample_ffi_run]
  by (simp add: shared_of_def ahead_bytes_def messages_taken_def messages_in_def map_filter_simps sample_ffi_def
      fresh_ffi_stream_def sample_half_def sample_recv_def sample_send_def)

text \<open>
  At the FFI a receive that is given up is not harmless: its task runs on, takes the next message
  and nobody gets it. The message has left the buffer, so no later receive returns it either.
\<close>

theorem a_given_up_receive_discards_a_message:
  "\<exists>f. ffi_reaches to_str sample_send (sample_half [Chunk (encode_frame [7])]) f
     \<and> messages_taken f = [[7]] \<and> messages_returned f = []
     \<and> ffi_recv_message (fs_recv f) = (Pending, fs_recv f)"
proof -
  have "ffi_recv_message (sample_half []) = (Pending, sample_half [])"
    by (simp add: ffi_recv_message_def half_recv_message_def sample_half_def sample_recv_def recv_loop.simps)
  with sample_ffi_run show ?thesis
    by (intro exI [of _ "(sample_ffi [])\<lparr>fs_recv := sample_half [], fs_recv_done := [(1, Got_message (Inr (Some [7])))]\<rparr>"])
      (simp add: messages_taken_def messages_returned_def messages_in_def map_filter_simps sample_ffi_def)
qed

end
