(* ===== verification/Ffi_Probe.thy ===== *)
theory Ffi_Probe
  imports Ffi Gateway
begin

text \<open>
  The idle probe (\<open>src/src/bin/ffiprobe.rs\<close>): connect, through the FFI or directly, sit idle, and read
  the stats line every 5 s. The loop is bounded by the clock only: it is a partial function, and that it
  returns is a theorem under the documented behaviour of \<open>tokio::time::sleep\<close>. The samples are counted
  by their index; the code's \<open>u32\<close> would wrap after 680 years.

  The lemmas: what the probe reads off a stats line, and the loop as its first decisive sample.
\<close>

section \<open>Arguments\<close>

record ffiprobe_args =
  fp_host :: string
  fp_port :: nat
  fp_cert_path :: path
  fp_hold_secs :: nat
  fp_direct :: bool

definition ffiprobe_defaults :: "(string \<rightharpoonup> string) \<Rightarrow> ffiprobe_args" where
  "ffiprobe_defaults env = \<lparr>fp_host = ''quic.konstruct.cc'', fp_port = 443,
     fp_cert_path = var_or env ''HOME'' [] @ ''/Code/construct-messenger/ConstructMessenger/quic_gateway.der'',
     fp_hold_secs = 60, fp_direct = False\<rparr>"

text \<open>The loop over the arguments; \<open>positional\<close> counts those that are no flag.\<close>

fun ffiprobe_args_loop :: "string list \<Rightarrow> nat \<Rightarrow> ffiprobe_args \<Rightarrow> ffiprobe_args" where
  "ffiprobe_args_loop [] positional a = a"
| "ffiprobe_args_loop (x # args) positional a =
     (if x = ''--'' then ffiprobe_args_loop args positional a
      else if x = ''--direct'' then ffiprobe_args_loop args positional (a\<lparr>fp_direct := True\<rparr>)
      else if x = ''--cert'' then
        (case args of
           [] \<Rightarrow> a
         | v # args' \<Rightarrow> ffiprobe_args_loop args' positional (a\<lparr>fp_cert_path := v\<rparr>))
      else if x = ''--hold'' then
        (case args of
           [] \<Rightarrow> a
         | v # args' \<Rightarrow>
             ffiprobe_args_loop args' positional
               (case parse_u64 v of Inr n \<Rightarrow> a\<lparr>fp_hold_secs := n\<rparr> | Inl e \<Rightarrow> a))
      else
        ffiprobe_args_loop args (Suc positional)
          (if positional = 0 then a\<lparr>fp_host := x\<rparr>
           else if positional = 1 then
             (case parse_u16 x of Inr n \<Rightarrow> a\<lparr>fp_port := n\<rparr> | Inl e \<Rightarrow> a)
           else a))"

section \<open>Samples\<close>

text \<open>
  What the connection says at each sample, and, on the FFI path, why the task could not be joined; the
  time since the start of the loop before the \<open>i\<close>-th sample, and after it.
\<close>

record idle_env =
  id_stats :: "nat \<Rightarrow> conn_stats"
  id_join :: "nat \<Rightarrow> string option"
  id_elapsed :: "nat \<Rightarrow> duration"
  id_after :: "nat \<Rightarrow> duration"

text \<open>\<open>TransportError\<close> displays as its text.\<close>

definition sample_stats :: "bool \<Rightarrow> idle_env \<Rightarrow> nat \<Rightarrow> string + string" where
  "sample_stats direct env i =
     (if direct then Inr (stats_string (id_stats env i))
      else
        (case (case id_join env i of
                 Some e \<Rightarrow> on_rt (Join_error e) | None \<Rightarrow> channel_connection_stats (id_stats env i)) of
           Inl (Transport msg) \<Rightarrow> Inl msg
         | Inr s \<Rightarrow> Inr s))"

definition ping_token :: "string \<Rightarrow> string" where
  "ping_token s =
     (case find (\<lambda>t. take 8 t = ''ping_tx='') (split_whitespace s) of
        Some t \<Rightarrow> t | None \<Rightarrow> ''ping_tx=?'')"

section \<open>The idle loop\<close>

definition as_secs :: "duration \<Rightarrow> nat" where
  "as_secs d = d div 1000000000"

datatype idle_verdict = Stats_failed nat string | Closed_while_idle nat | Survived | Still_starved

partial_function (option) idle_loop ::
  "bool \<Rightarrow> idle_env \<Rightarrow> duration \<Rightarrow> nat \<Rightarrow> string \<Rightarrow> bool \<Rightarrow> idle_verdict option" where
  "idle_loop direct env hold samples last_ping ping_grew =
     (if id_elapsed env samples < hold then
        (case sample_stats direct env samples of
           Inl e \<Rightarrow> Some (Stats_failed (as_secs (id_after env samples)) e)
         | Inr s \<Rightarrow>
             if contains s ''close=Some'' then Some (Closed_while_idle (as_secs (id_after env samples)))
             else idle_loop direct env hold (samples + 1) (ping_token s)
                    (ping_grew \<or> 0 < samples \<and> ping_token s \<noteq> last_ping))
      else Some (if ping_grew then Survived else Still_starved))"

datatype ffiprobe_outcome = Cert_unread string | Connect_failed string | Idled idle_verdict

definition ffiprobe_exit :: "ffiprobe_outcome \<Rightarrow> nat" where
  "ffiprobe_exit x =
     (case x of
        Cert_unread e \<Rightarrow> 2
      | Connect_failed e \<Rightarrow> 2
      | Idled v \<Rightarrow> (case v of Survived \<Rightarrow> 0 | Stats_failed t e \<Rightarrow> 1 | Closed_while_idle t \<Rightarrow> 1 | Still_starved \<Rightarrow> 1))"

text \<open>
  \<open>main\<close>, in a process that has done nothing yet; \<open>read_cert\<close> is \<open>fs::read\<close> and \<open>panicked\<close> tokio's text
  for a task that panicked. \<open>None\<close> is a loop that never ends.
\<close>

definition ffiprobe_main ::
  "string \<Rightarrow> ('i, 'm, 'z) quinn_defaults \<Rightarrow> tls_checks \<Rightarrow> net \<Rightarrow> (path \<Rightarrow> string + bytes)
     \<Rightarrow> (string \<rightharpoonup> string) \<Rightarrow> idle_env \<Rightarrow> string list
     \<Rightarrow> ffiprobe_outcome option rust" where
  "ffiprobe_main panicked q ck net read_cert env ienv args =
     (let a = ffiprobe_args_loop args 0 (ffiprobe_defaults env);
          host_port = fp_host a @ '':'' @ show_nat (fp_port a);
          idle = map_option Idled (idle_loop (fp_direct a) ienv (from_secs (fp_hold_secs a)) 0 [] False)
      in case read_cert (fp_cert_path a) of
           Inl e \<Rightarrow> Ret (Some (Cert_unread e))
         | Inr cert \<Rightarrow>
             if fp_direct a then
               rust_bind (connect q ck net host_port (fp_host a) cert no_proc) (\<lambda>(r, p).
                 Ret (case r of Inl e \<Rightarrow> Some (Connect_failed (show_chain e)) | Inr c \<Rightarrow> idle))
             else
               Ret (case fst (channel_connect panicked q ck net host_port (fp_host a) cert no_proc) of
                      Inl (Transport msg) \<Rightarrow> Some (Connect_failed msg)
                    | Inr c \<Rightarrow> idle))"

section \<open>Reading a stats line\<close>

lemma stats_words:
  "split_whitespace (stats_string s) =
     (''tx_pkts='' @ show_nat (unat (cs_tx_datagrams s))) #
     (''rx_pkts='' @ show_nat (unat (cs_rx_datagrams s))) #
     (''ping_tx='' @ show_nat (unat (cs_ping s))) #
     split_whitespace_loop [] (''rtt='' @ show_nat (as_millis (cs_rtt s)) @ ''ms lost=''
       @ show_nat (unat (cs_lost s)) @ '' close='' @ cs_close s)"
proof -
  have word: "split_whitespace_loop [] (v @ CHR '' '' # r) = v # split_whitespace_loop [] r"
    if "list_all visible v" "v \<noteq> []" for v r
    using that split_whitespace_word [of v "[]" "CHR '' '' # r"] by (simp add: split_whitespace_space)
  have v: "list_all visible (''tx_pkts='' @ show_nat n)" "list_all visible (''rx_pkts='' @ show_nat n)"
    "list_all visible (''ping_tx='' @ show_nat n)" for n
    using visible_show_nat by (simp_all add: visible_def)
  show ?thesis
    using word [OF v(1), of "unat (cs_tx_datagrams s)"] word [OF v(2), of "unat (cs_rx_datagrams s)"]
      word [OF v(3), of "unat (cs_ping s)"]
    by (simp add: split_whitespace_def stats_string_def)
qed

lemma ping_token_stats: "ping_token (stats_string s) = ''ping_tx='' @ show_nat (unat (cs_ping s))"
  by (simp add: ping_token_def stats_words)

lemma no_c_in_show_nat: "CHR ''c'' \<notin> set (show_nat n)"
  using digits_show_nat [of "CHR ''c''" n] by auto

lemma contains_close_stats:
  assumes "cs_close s = ''None'' \<or> prefix ''Some('' (cs_close s)"
  shows "contains (stats_string s) ''close=Some'' \<longleftrightarrow> cs_close s \<noteq> ''None''"
proof -
  let ?p = "''tx_pkts='' @ show_nat (unat (cs_tx_datagrams s)) @ '' rx_pkts='' @ show_nat (unat (cs_rx_datagrams s))
     @ '' ping_tx='' @ show_nat (unat (cs_ping s)) @ '' rtt='' @ show_nat (as_millis (cs_rtt s))
     @ ''ms lost='' @ show_nat (unat (cs_lost s)) @ '' ''"
  have "stats_string s = ?p @ ''close='' @ cs_close s"
    by (simp add: stats_string_def)
  moreover have "CHR ''c'' \<notin> set ?p"
    using no_c_in_show_nat by simp
  ultimately have "contains (stats_string s) ''close=Some'' \<longleftrightarrow> contains (''close='' @ cs_close s) ''close=Some''"
    using contains_skips [of "CHR ''c''" ?p] by presburger
  also have "\<dots> \<longleftrightarrow> cs_close s \<noteq> ''None''"
    using assms by (auto simp: prefix_def)
  finally show ?thesis .
qed

section \<open>The first decisive sample\<close>

definition decided :: "bool \<Rightarrow> idle_env \<Rightarrow> duration \<Rightarrow> nat \<Rightarrow> bool" where
  "decided direct env hold i \<longleftrightarrow>
     hold \<le> id_elapsed env i
     \<or> (case sample_stats direct env i of Inl e \<Rightarrow> True | Inr s \<Rightarrow> contains s ''close=Some'')"

definition ping_at :: "bool \<Rightarrow> idle_env \<Rightarrow> nat \<Rightarrow> string" where
  "ping_at direct env i = (case sample_stats direct env i of Inl e \<Rightarrow> [] | Inr s \<Rightarrow> ping_token s)"

definition grew_before :: "bool \<Rightarrow> idle_env \<Rightarrow> nat \<Rightarrow> bool" where
  "grew_before direct env n \<longleftrightarrow> (\<exists>m. Suc m < n \<and> ping_at direct env (Suc m) \<noteq> ping_at direct env m)"

lemma grew_before_Suc:
  "grew_before direct env (Suc n) \<longleftrightarrow>
     grew_before direct env n \<or> 0 < n \<and> ping_at direct env n \<noteq> ping_at direct env (n - 1)"
  by (cases n) (auto simp: grew_before_def less_Suc_eq)

definition last_before :: "bool \<Rightarrow> idle_env \<Rightarrow> nat \<Rightarrow> string" where
  "last_before direct env n = (if n = 0 then [] else ping_at direct env (n - 1))"

lemma idle_loop_step:
  "idle_loop direct env hold n (last_before direct env n) (grew_before direct env n) =
     (if decided direct env hold n then
        Some (if id_elapsed env n < hold then
                (case sample_stats direct env n of
                   Inl e \<Rightarrow> Stats_failed (as_secs (id_after env n)) e
                 | Inr s \<Rightarrow> Closed_while_idle (as_secs (id_after env n)))
              else if grew_before direct env n then Survived else Still_starved)
      else idle_loop direct env hold (Suc n) (last_before direct env (Suc n)) (grew_before direct env (Suc n)))"
  by (subst idle_loop.simps)
    (auto simp: decided_def last_before_def grew_before_Suc ping_at_def split: sum.splits)

text \<open>The connection at a sample: not to be had, or closed.\<close>

definition unjoined :: "bool \<Rightarrow> idle_env \<Rightarrow> nat \<Rightarrow> bool" where
  "unjoined direct env i \<longleftrightarrow> \<not> direct \<and> id_join env i \<noteq> None"

definition closed_at :: "idle_env \<Rightarrow> nat \<Rightarrow> bool" where
  "closed_at env i \<longleftrightarrow> cs_close (id_stats env i) \<noteq> ''None''"

lemma sample_stats_eq:
  "sample_stats direct env i =
     (if unjoined direct env i then Inl (''transport runtime join: '' @ the (id_join env i))
      else Inr (stats_string (id_stats env i)))"
  by (auto simp: sample_stats_def unjoined_def on_rt_def channel_connection_stats_def split: option.split)

lemma ping_at_differs:
  "\<not> unjoined direct env i \<Longrightarrow> \<not> unjoined direct env j \<Longrightarrow>
     ping_at direct env i \<noteq> ping_at direct env j \<longleftrightarrow> cs_ping (id_stats env i) \<noteq> cs_ping (id_stats env j)"
  by (auto simp: ping_at_def sample_stats_eq ping_token_stats show_nat_inject intro: unsigned_word_eqI)

definition idle_look :: "bool \<Rightarrow> idle_env \<Rightarrow> duration \<Rightarrow> nat \<Rightarrow> idle_verdict option" where
  "idle_look direct env hold n =
     (if decided direct env hold n then
        Some (if id_elapsed env n < hold then
                (case sample_stats direct env n of
                   Inl e \<Rightarrow> Stats_failed (as_secs (id_after env n)) e
                 | Inr s \<Rightarrow> Closed_while_idle (as_secs (id_after env n)))
              else if grew_before direct env n then Survived else Still_starved)
      else None)"

lemma idle_loop_decided:
  assumes "idle_loop direct env hold i last_ping grew = Some v"
  shows "\<exists>n. decided direct env hold n"
proof (rule idle_loop.raw_induct [OF _ assms])
  fix f direct env hold samples last_ping grew v
  assume IH: "\<And>direct env hold samples last_ping grew v. f direct env hold samples last_ping grew = Some v \<Longrightarrow>
      \<exists>n. decided direct env hold n"
    and body: "(if id_elapsed env samples < hold then
        (case sample_stats direct env samples of
           Inl e \<Rightarrow> Some (Stats_failed (as_secs (id_after env samples)) e)
         | Inr s \<Rightarrow>
             if contains s ''close=Some'' then Some (Closed_while_idle (as_secs (id_after env samples)))
             else f direct env hold (samples + 1) (ping_token s)
                    (grew \<or> 0 < samples \<and> ping_token s \<noteq> last_ping))
      else Some (if grew then Survived else Still_starved)) = Some v"
  show "\<exists>n. decided direct env hold n"
  proof (cases "decided direct env hold samples")
    case False
    then obtain s where "id_elapsed env samples < hold" "sample_stats direct env samples = Inr s"
      "\<not> contains s ''close=Some''"
      by (auto simp: decided_def split: sum.splits)
    with body have "f direct env hold (samples + 1) (ping_token s)
        (grew \<or> 0 < samples \<and> ping_token s \<noteq> last_ping) = Some v"
      by simp
    then show ?thesis
      by (rule IH)
  qed blast
qed

interpretation idling: polling_loop
  "\<lambda>i. idle_loop direct env hold i (last_before direct env i) (grew_before direct env i)"
  "idle_look direct env hold"
  for direct env hold
proof unfold_locales
  show "idle_loop direct env hold i (last_before direct env i) (grew_before direct env i) =
      (case idle_look direct env hold i of
         None \<Rightarrow> idle_loop direct env hold (Suc i) (last_before direct env (Suc i)) (grew_before direct env (Suc i))
       | Some r \<Rightarrow> Some r)" for i
    by (subst idle_loop_step) (simp add: idle_look_def)
  show "\<exists>n. idle_look direct env hold n \<noteq> None"
    if "idle_loop direct env hold 0 (last_before direct env 0) (grew_before direct env 0) = Some r" for r
    using idle_loop_decided [OF that] by (auto simp: idle_look_def)
qed

section \<open>Properties\<close>

text \<open>
  The probe reads the stats line as the transport writes it: the token it compares is the ping
  counter in decimal, and it finds the connection closed exactly when quinn reports a close reason,
  whatever else is in the line and in the reason.
\<close>

lemma the_idle_probe_reads_the_stats_line:
  assumes "cs_close s = ''None'' \<or> prefix ''Some('' (cs_close s)"
  shows "ping_token (stats_string s) = ''ping_tx='' @ show_nat (unat (cs_ping s))
    \<and> (contains (stats_string s) ''close=Some'' \<longleftrightarrow> cs_close s \<noteq> ''None'')"
  using ping_token_stats contains_close_stats [OF assms] by simp

text \<open>
  C38: The verdict of the idle probe is exact, though it is made from the text of the stats line. When
  every sleep takes its 5 s the probe returns; it reports a failure at the first sample whose task could
  not be joined and a death at the first that found the connection closed, and otherwise, at the first
  check at or after the end of the hold, survival exactly when two consecutive samples differ in quinn's
  ping counter.
\<close>

theorem the_idle_verdict_is_exact:
  assumes sleeps: "\<And>k. k * from_secs 5 \<le> id_elapsed env k"
    and debug: "\<And>k. cs_close (id_stats env k) = ''None'' \<or> prefix ''Some('' (cs_close (id_stats env k))"
  shows "\<exists>v n. idle_loop direct env hold 0 [] False = Some v
    \<and> (\<forall>m < n. id_elapsed env m < hold \<and> \<not> unjoined direct env m \<and> \<not> closed_at env m)
    \<and> (case v of
         Stats_failed t e \<Rightarrow> id_elapsed env n < hold \<and> unjoined direct env n
       | Closed_while_idle t \<Rightarrow> id_elapsed env n < hold \<and> closed_at env n
       | Survived \<Rightarrow> hold \<le> id_elapsed env n
           \<and> (\<exists>m. Suc m < n \<and> cs_ping (id_stats env (Suc m)) \<noteq> cs_ping (id_stats env m))
       | Still_starved \<Rightarrow> hold \<le> id_elapsed env n
           \<and> \<not> (\<exists>m. Suc m < n \<and> cs_ping (id_stats env (Suc m)) \<noteq> cs_ping (id_stats env m)))"
proof -
  have dec: "decided direct env hold k \<longleftrightarrow>
      \<not> (id_elapsed env k < hold \<and> \<not> unjoined direct env k \<and> \<not> closed_at env k)" for k
    using contains_close_stats [OF debug [of k]] by (auto simp: decided_def sample_stats_eq closed_at_def)
  have "hold \<le> hold * from_secs 5"
    by (simp add: from_secs_def)
  with sleeps [of hold] have "hold \<le> id_elapsed env hold"
    by linarith
  then have "idle_look direct env hold hold \<noteq> None"
    by (simp add: idle_look_def decided_def)
  from idling.returns [OF this] obtain n v where v: "idle_look direct env hold n = Some v"
    and n: "\<forall>m < n. idle_look direct env hold m = None"
    and run: "idle_loop direct env hold 0 [] False = Some v"
    by (auto simp: last_before_def grew_before_def)
  have before: "\<forall>m < n. id_elapsed env m < hold \<and> \<not> unjoined direct env m \<and> \<not> closed_at env m"
    using n dec by (auto simp: idle_look_def split: if_splits)
  then have "grew_before direct env n \<longleftrightarrow>
      (\<exists>m. Suc m < n \<and> cs_ping (id_stats env (Suc m)) \<noteq> cs_ping (id_stats env m))"
    unfolding grew_before_def using ping_at_differs by (metis Suc_lessD)
  with v run before show ?thesis
    by (intro exI [of _ v] exI [of _ n])
      (auto simp: idle_look_def dec sample_stats_eq split: if_splits)
qed

definition sample_idle :: "u64 \<Rightarrow> idle_env" where
  "sample_idle pings = \<lparr>id_stats = (\<lambda>i. \<lparr>cs_tx_datagrams = 9, cs_rx_datagrams = 9, cs_ping = of_nat i * pings,
      cs_rtt = 20000000, cs_lost = 0, cs_close = ''None''\<rparr>), id_join = \<lambda>_. None,
     id_elapsed = \<lambda>i. i * from_secs 5, id_after = \<lambda>i. Suc i * from_secs 5\<rparr>"

theorem the_idle_verdict_is_exact_witness:
  "\<exists>v. idle_loop False (sample_idle 1) (from_secs 60) 0 [] False = Some v"
  using the_idle_verdict_is_exact [of "sample_idle 1" False "from_secs 60"] by (auto simp: sample_idle_def)

text \<open>
  A hold of 5 s or less takes at most one sample, which is compared with nothing: the verdict is that
  the keep-alive does not fire, however often it does.
\<close>

theorem a_short_hold_is_always_starved:
  assumes "hold \<le> id_elapsed env 1" and "\<not> (case sample_stats direct env 0 of
      Inl e \<Rightarrow> True | Inr s \<Rightarrow> contains s ''close=Some'')"
  shows "idle_loop direct env hold 0 [] False = Some Still_starved"
  using assms by (subst idle_loop.simps, subst idle_loop.simps) (auto split: sum.splits)

theorem a_short_hold_is_always_starved_witness:
  "idle_loop False (sample_idle 1) (from_secs 5) 0 [] False = Some Still_starved"
  by (rule a_short_hold_is_always_starved)
    (simp_all add: sample_idle_def sample_stats_def channel_connection_stats_def on_rt_def contains_close_stats)

end
