(* ===== verification/Bare_Client.thy ===== *)
theory Bare_Client
  imports Client_Connect Gateway
begin

text \<open>
  What the two command-line clients \<open>src/src/bin/probe.rs\<close> and \<open>src/src/bin/smoke.rs\<close> have in common:
  the positional arguments, one connection made with quinn and h3 directly, and the request. They do
  not use \<open>QuicClient\<close>: they bind the IPv4 wildcard address and dial the first address resolved.

  An awaited answer under a timeout is \<open>Elapsed\<close> or \<open>In_time\<close>. The reads of a stream are those that
  come in time. \<open>carries\<close> says that the client's end of a stream shows what the server's end was given:
  HTTP/3 keeps the bytes and their order, and cuts them into chunks of its own.
\<close>

section \<open>Arguments\<close>

record bare_args =
  ba_host :: string
  ba_port :: nat
  ba_cert_path :: path
  ba_rest :: "string list"

definition bare_args_of :: "string \<Rightarrow> string list \<Rightarrow> anyhow + bare_args" where
  "bare_args_of usage args =
     (case args of
        [] \<Rightarrow> Inl [usage]
      | host # args1 \<Rightarrow>
     (case args1 of
        [] \<Rightarrow> Inl [''port required'']
      | p # args2 \<Rightarrow>
     (case parse_u16 p of
        Inl e \<Rightarrow> Inl [''invalid port'', show_int_error e]
      | Inr port \<Rightarrow>
     (case args2 of
        [] \<Rightarrow> Inl [''path to server-cert.der required'']
      | cert_path # args3 \<Rightarrow>
          Inr \<lparr>ba_host = host, ba_port = port, ba_cert_path = cert_path, ba_rest = args3\<rparr>))))"

definition host_port_of :: "bare_args \<Rightarrow> string" where
  "host_port_of a = ba_host a @ '':'' @ show_nat (ba_port a)"

section \<open>The connection\<close>

definition BARE_TIMEOUT :: duration where "BARE_TIMEOUT = from_secs 10"

datatype 'a timed = Elapsed | In_time 'a

text \<open>
  \<open>bs_response\<close> and \<open>bs_reads\<close> are what \<open>recv_response\<close> and \<open>recv_data\<close> answer, \<open>bs_tail\<close> what
  \<open>recv_trailers\<close> does; an exhausted list of reads answers nothing more.
\<close>

record bare_stream =
  bs_send :: h3_send
  bs_response :: "(anyhow + u16 \<times> (string \<times> bytes) list) timed"
  bs_reads :: "h3_read list"
  bs_tail :: "(anyhow + (string \<times> bytes) list option) poll"

text \<open>
  What the file system, the resolver, the kernel, quinn and h3 answer. \<open>bn_connect\<close> is the check
  quinn makes on a remote address before it sends anything, for the address the endpoint is bound to.
\<close>

record 'c bare_net =
  bn_read :: "path \<Rightarrow> anyhow + bytes"
  bn_lookup :: "string \<Rightarrow> anyhow + socket_addr list"
  bn_endpoint :: "socket_addr \<Rightarrow> anyhow option"
  bn_connect :: "socket_addr \<Rightarrow> socket_addr \<Rightarrow> string \<Rightarrow> anyhow option"
  bn_handshake :: "'c \<Rightarrow> socket_addr \<Rightarrow> string \<Rightarrow> duration \<Rightarrow> handshake_answer"
  bn_h3 :: "anyhow option"
  bn_request :: "request \<Rightarrow> anyhow + bare_stream"

definition bare_connect ::
  "('i, 'm, 'z) quinn_defaults \<Rightarrow> tls_checks
     \<Rightarrow> ('i, 'm, 'z) transport_config_scheme client_config bare_net
     \<Rightarrow> string \<Rightarrow> bare_args \<Rightarrow> string \<Rightarrow> anyhow + unit" where
  "bare_connect q ck net timed_out a server_name =
     (case bn_read net (ba_cert_path a) of
        Inl e \<Rightarrow> Inl (context_of (''read '' @ ba_cert_path a) e)
      | Inr cert_der \<Rightarrow>
     (case client_config q ck \<lparr>cb_cert = cert_der, cb_key_der = []\<rparr> of
        Inl e \<Rightarrow> Inl e
      | Inr cfg \<Rightarrow>
     (case bn_lookup net (host_port_of a) of
        Inl e \<Rightarrow> Inl e
      | Inr [] \<Rightarrow> Inl [''DNS resolve '' @ host_port_of a]
      | Inr (addr # _) \<Rightarrow>
     (case bn_endpoint net (Addr_v4 0 0) of
        Some e \<Rightarrow> Inl e
      | None \<Rightarrow>
     (case bn_connect net (Addr_v4 0 0) addr server_name of
        Some e \<Rightarrow> Inl e
      | None \<Rightarrow>
     (case bn_handshake net cfg addr server_name BARE_TIMEOUT of
        Handshake_elapsed \<Rightarrow> Inl (context_of timed_out elapsed_error)
      | Handshake_failed e \<Rightarrow> Inl e
      | Handshake_done \<Rightarrow>
     (case bn_h3 net of Some e \<Rightarrow> Inl e | None \<Rightarrow> Inr ())))))))"

definition bare_request :: "http_checks \<Rightarrow> string \<Rightarrow> string \<Rightarrow> anyhow + request" where
  "bare_request ck server_name path =
     builder_header ck ''te'' ''trailers''
       (builder_header ck ''content-type'' ''application/grpc+proto''
          (request_builder ck ''POST'' (''https://'' @ server_name @ path)))"

text \<open>Connecting, then the request: the stream, or the error.\<close>

definition bare_call ::
  "('i, 'm, 'z) quinn_defaults \<Rightarrow> tls_checks \<Rightarrow> http_checks
     \<Rightarrow> ('i, 'm, 'z) transport_config_scheme client_config bare_net
     \<Rightarrow> string \<Rightarrow> bare_args \<Rightarrow> string \<Rightarrow> string \<Rightarrow> anyhow + bare_stream" where
  "bare_call q ck hck net timed_out a server_name path =
     (case bare_connect q ck net timed_out a server_name of
        Inl e \<Rightarrow> Inl e
      | Inr _ \<Rightarrow>
     (case bare_request hck server_name path of
        Inl e \<Rightarrow> Inl e
      | Inr req \<Rightarrow> bn_request net req))"

section \<open>What a peer has written, seen from the other end\<close>

fun trailers_in :: "h3_write list \<Rightarrow> (string \<times> bytes) list option" where
  "trailers_in [] = None"
| "trailers_in (Trailers t # ws) = Some t"
| "trailers_in (w # ws) = trailers_in ws"

definition carries :: "h3_write list \<Rightarrow> bare_stream \<Rightarrow> bool" where
  "carries ws st \<longleftrightarrow>
     (\<exists>status headers rest cs.
        ws = Headers status headers # rest
      \<and> bs_response st = In_time (Inr (status, headers))
      \<and> concat cs = concat (map payload rest)
      \<and> bs_reads st = map Chunk cs @ (if Fin \<in> set rest \<or> trailers_in rest \<noteq> None then [End_of_data] else [])
      \<and> bs_tail st = (if Fin \<in> set rest then Ready (Inr (trailers_in rest)) else Pending))"

lemma trailers_in_append [simp]:
  "trailers_in (a @ b) = (case trailers_in a of None \<Rightarrow> trailers_in b | Some t \<Rightarrow> Some t)"
  by (induction a rule: trailers_in.induct) simp_all

lemma trailers_in_data [simp]: "trailers_in (map Data ds) = None"
  by (induction ds) simp_all

lemma payload_data [simp]: "payload \<circ> Data = id" "payload \<circ> (Data \<circ> f) = f"
  by auto

lemma leading_chunks_of [simp]:
  "leading_chunks (map Chunk cs) = cs" "leading_chunks (map Chunk cs @ End_of_data # later) = cs"
  by (induction cs) simp_all

lemma reads_split:
  obtains rest where "reads = map Chunk (leading_chunks reads) @ rest" and "no_chunk rest"
proof -
  have "\<exists>rest. reads = map Chunk (leading_chunks reads) @ rest \<and> no_chunk rest"
    by (induction reads rule: leading_chunks.induct) auto
  with that show ?thesis
    by blast
qed

end
