(* ===== verification/Echo_Probe.thy ===== *)
theory Echo_Probe
  imports Bare_Client
begin

text \<open>
  The echo server program (\<open>src/src/main.rs\<close>) and the echo probe (\<open>src/src/bin/probe.rs\<close>).

  The server's file and configuration come from one certificate; the probe sends three frames, one
  after the echo of the other, and passes when each came back. Its receive loop is a copy of
  \<open>recv_message\<close> under a timeout.

  The lemmas: \<open>probe_rounds_pass\<close> reads the rounds off the messages of the byte stream.
\<close>

section \<open>main.rs\<close>

text \<open>\<open>arg\<close> is the first argument, if any. Once the server runs the program waits for its accept task.\<close>

definition echo_main ::
  "('i, 'm, 'z) quinn_defaults \<Rightarrow> tls_checks \<Rightarrow> fs_answers \<Rightarrow> (string list \<Rightarrow> anyhow + (bytes \<times> bytes))
     \<Rightarrow> (string \<rightharpoonup> string) \<Rightarrow> string option \<Rightarrow> (string \<Rightarrow> socket_addr option)
     \<Rightarrow> server_net \<Rightarrow> accept_answer incoming
     \<Rightarrow> files \<Rightarrow> (anyhow + ('i, 'm, 'z) transport_config_scheme server_config server_handle) \<times> files" where
  "echo_main q ck fa rcgen env arg parse_addr snet incoming fs =
     (case self_signed rcgen [var_or env ''QUIC_SAN'' ''localhost''] of
        Inl e \<Rightarrow> (Inl e, fs)
      | Inr bundle \<Rightarrow>
     (case fa_write fa ''server-cert.der'' (cb_cert bundle) of
        Not_written e left \<Rightarrow>
          (Inl [fa_show fa e],
           case left of None \<Rightarrow> fs | Some part \<Rightarrow> fs(''server-cert.der'' \<mapsto> part))
      | Written \<Rightarrow>
     (let fs1 = fs(''server-cert.der'' \<mapsto> cb_cert bundle) in
      case server_config q ck bundle of
        Inl e \<Rightarrow> (Inl e, fs1)
      | Inr cfg \<Rightarrow>
          (let bind = (case Option.bind arg parse_addr of Some addr \<Rightarrow> addr | None \<Rightarrow> Addr_v4 0 4433) in
           (spawn_echo_server snet incoming cfg bind, fs1)))))"

section \<open>probe.rs\<close>

definition probe_payload :: "nat \<Rightarrow> bytes" where
  "probe_payload i = text_bytes (''probe-'' @ show_nat i)"

text \<open>The inner loop: the echoed frame or the error, the reads still to come and the buffer.\<close>

function probe_wait :: "nat \<Rightarrow> h3_read list \<Rightarrow> bytes \<Rightarrow> (anyhow + bytes) \<times> h3_read list \<times> bytes" where
  "probe_wait i reads buf =
     (case take_frame buf of
        (Some frame, buf') \<Rightarrow> (Inr frame, reads, buf')
      | (None, buf') \<Rightarrow>
          (case reads of
             [] \<Rightarrow> (Inl (context_of ''recv_data timed out'' elapsed_error), [], buf')
           | Read_error e # rs \<Rightarrow> (Inl e, rs, buf')
           | Chunk chunk # rs \<Rightarrow> probe_wait i rs (buf' @ chunk)
           | End_of_data # rs \<Rightarrow> (Inl [''server closed before echo '' @ show_nat i], rs, buf')))"
  by pat_completeness auto
termination
  by (relation "measure (\<lambda>(i, reads, buf). length reads)") auto

declare probe_wait.simps [simp del]

text \<open>\<open>for i in 0..3\<close>: the number of rounds left and \<open>i\<close>.\<close>

fun probe_rounds ::
  "nat \<Rightarrow> nat \<Rightarrow> h3_read list \<Rightarrow> bytes \<Rightarrow> h3_send \<Rightarrow> (anyhow + unit) \<times> h3_send" where
  "probe_rounds 0 i reads buf s = (Inr (), s)"
| "probe_rounds (Suc n) i reads buf s =
     (case h3_write (Data (encode_frame (probe_payload i))) s of
        (Inl e, s') \<Rightarrow> (Inl e, s')
      | (Inr _, s') \<Rightarrow>
          (case probe_wait i reads buf of
             (Inl e, reads', buf') \<Rightarrow> (Inl e, s')
           | (Inr echoed, reads', buf') \<Rightarrow>
               if echoed \<noteq> probe_payload i then (Inl [''echo mismatch on frame '' @ show_nat i], s')
               else probe_rounds n (Suc i) reads' buf' s'))"

text \<open>\<open>show_status\<close> is \<open>Display\<close> of \<open>StatusCode\<close>.\<close>

definition probe_exchange :: "(u16 \<Rightarrow> string) \<Rightarrow> bare_stream \<Rightarrow> (anyhow + unit) \<times> h3_send" where
  "probe_exchange show_status st =
     (case bs_response st of
        Elapsed \<Rightarrow>
          (Inl (context_of ''recv_response timed out - bidi headers never arrived'' elapsed_error), bs_send st)
      | In_time (Inl e) \<Rightarrow> (Inl e, bs_send st)
      | In_time (Inr (status, headers)) \<Rightarrow>
          if status \<noteq> 200 then (Inl [''unexpected status '' @ show_status status], bs_send st)
          else
            (case probe_rounds 3 0 (bs_reads st) [] (bs_send st) of
               (Inl e, s) \<Rightarrow> (Inl e, s)
             | (Inr _, s) \<Rightarrow> h3_write Fin s))"

definition probe_main ::
  "('i, 'm, 'z) quinn_defaults \<Rightarrow> tls_checks \<Rightarrow> http_checks
     \<Rightarrow> ('i, 'm, 'z) transport_config_scheme client_config bare_net
     \<Rightarrow> (u16 \<Rightarrow> string) \<Rightarrow> string list \<Rightarrow> anyhow + unit" where
  "probe_main q ck hck net show_status args =
     (case bare_args_of ''usage: probe <host> <port> <cert.der> [server-name]'' args of
        Inl e \<Rightarrow> Inl e
      | Inr a \<Rightarrow>
          (let server_name = (case ba_rest a of [] \<Rightarrow> ba_host a | n # _ \<Rightarrow> n) in
           case bare_call q ck hck net ''QUIC handshake timed out - UDP is likely filtered on the path'' a
                  server_name ''/construct.Echo/BiDi'' of
             Inl e \<Rightarrow> Inl e
           | Inr st \<Rightarrow> fst (probe_exchange show_status st)))"

section \<open>The receive loop\<close>

definition probe_answer :: "nat \<Rightarrow> (anyhow + bytes option) poll \<Rightarrow> anyhow + bytes" where
  "probe_answer i x =
     (case x of
        Pending \<Rightarrow> Inl (context_of ''recv_data timed out'' elapsed_error)
      | Ready (Inl e) \<Rightarrow> Inl (tl e)
      | Ready (Inr None) \<Rightarrow> Inl [''server closed before echo '' @ show_nat i]
      | Ready (Inr (Some m)) \<Rightarrow> Inr m)"

lemma probe_wait_eq:
  "probe_wait i reads buf = (let (x, rest) = recv_loop reads buf in (probe_answer i x, rest))"
proof (induction i reads buf rule: probe_wait.induct)
  case (1 i reads buf)
  show ?case
  proof (cases "take_frame buf")
    case (Pair m b)
    show ?thesis
    proof (cases m)
      case (Some m')
      with Pair show ?thesis
        by (simp add: probe_wait.simps [of i reads] recv_loop_frame probe_answer_def)
    next
      case None
      with Pair have t: "take_frame buf = (None, b)"
        by simp
      show ?thesis
      proof (cases reads)
        case Nil
        with t show ?thesis
          by (simp add: probe_wait.simps [of i "[]"] recv_loop.simps [of "[]"] probe_answer_def)
      next
        case (Cons x rs)
        with t "1.IH" [OF t [symmetric] refl Cons] show ?thesis
          by (cases x) (simp_all add: probe_wait.simps [of i "_ # _"] recv_loop.simps [of "_ # _"]
              probe_answer_def context_of_def Let_def)
      qed
    qed
  qed
qed

lemma probe_rounds_pass:
  assumes "takes_writes s" and "no_chunk rest"
  shows "fst (probe_rounds n i (map Chunk cs @ rest) buf s) = Inr () \<longleftrightarrow>
    take n (fst (split_frames (buf @ concat cs))) = map probe_payload [i..<i + n]"
  using assms(1)
proof (induction n arbitrary: i cs buf s)
  case (Suc n)
  let ?s = "s\<lparr>hw_written := hw_written s @ [Data (encode_frame (probe_payload i))]\<rparr>"
  have s: "takes_writes ?s"
    using Suc.prems by simp
  obtain ms r where split: "split_frames (buf @ concat cs) = (ms, r)"
    by fastforce
  show ?case
  proof (cases ms)
    case Nil
    with recv_loop_spec [OF assms(2) split]
    have "recv_loop (map Chunk cs @ rest) buf = (fst (ending rest), snd (ending rest), r)"
      by simp
    moreover have "\<exists>e. probe_answer i (fst (ending rest)) = Inl e"
      using assms(2) by (cases rest rule: ending.cases) (simp_all add: probe_answer_def)
    ultimately show ?thesis
      using Suc.prems split Nil by (auto simp: probe_wait_eq upt_conv_Cons)
  next
    case (Cons m ms')
    with recv_loop_spec [OF assms(2) split] obtain cs' buf' where
      loop: "recv_loop (map Chunk cs @ rest) buf = (Ready (Inr (Some m)), map Chunk cs' @ rest, buf')"
      and left: "split_frames (buf' @ concat cs') = (ms', r)"
      by auto
    from Suc.IH [OF s, of "Suc i" cs' buf'] loop left split Cons Suc.prems show ?thesis
      by (simp add: probe_wait_eq probe_answer_def upt_conv_Cons del: upt_Suc)
  qed
qed simp

lemma probe_rounds_write:
  "takes_writes s \<Longrightarrow> fst (probe_rounds n i reads buf s) = Inr () \<Longrightarrow>
     snd (probe_rounds n i reads buf s)
       = s\<lparr>hw_written := hw_written s @ map (Data \<circ> encode_frame \<circ> probe_payload) [i..<i + n]\<rparr>"
proof (induction n arbitrary: i reads buf s)
  case (Suc n)
  let ?s = "s\<lparr>hw_written := hw_written s @ [Data (encode_frame (probe_payload i))]\<rparr>"
  obtain x reads' buf' where wait: "probe_wait i reads buf = (x, reads', buf')"
    using prod_cases3 by blast
  with Suc.prems have "x = Inr (probe_payload i)"
    by (cases x) (simp_all split: if_splits)
  with Suc.IH [of ?s "Suc i" reads' buf'] Suc.prems wait show ?case
    by (simp add: upt_conv_Cons del: upt_Suc)
qed simp

lemma probe_exchange_passes:
  assumes "takes_writes (bs_send st)"
  shows "fst (probe_exchange show_status st) = Inr () \<longleftrightarrow>
    (\<exists>headers. bs_response st = In_time (Inr (200, headers)))
    \<and> take 3 (fst (split_frames (concat (leading_chunks (bs_reads st))))) = map probe_payload [0..<3]"
proof -
  obtain rest where reads: "bs_reads st = map Chunk (leading_chunks (bs_reads st)) @ rest" "no_chunk rest"
    by (rule reads_split)
  let ?run = "probe_rounds 3 0 (bs_reads st) [] (bs_send st)"
  have pass: "fst ?run = Inr () \<longleftrightarrow>
      take 3 (fst (split_frames (concat (leading_chunks (bs_reads st))))) = map probe_payload [0..<3]"
    using probe_rounds_pass [OF assms reads(2), of 3 0 "leading_chunks (bs_reads st)" "[]"] reads(1) by simp
  have "takes_writes (snd ?run)" if "fst ?run = Inr ()"
    using probe_rounds_write [OF assms that] assms by simp
  then have "fst (case ?run of (Inl e, s) \<Rightarrow> (Inl e, s) | (Inr u, s) \<Rightarrow> h3_write Fin s) = Inr ()
      \<longleftrightarrow> fst ?run = Inr ()"
    by (cases ?run; cases "fst ?run") auto
  with pass show ?thesis
    by (auto simp: probe_exchange_def split: timed.split sum.split)
qed

lemma probe_payloads:
  "map probe_payload [0..<3] = [text_bytes ''probe-0'', text_bytes ''probe-1'', text_bytes ''probe-2'']"
  by (simp add: numeral_3_eq_3 probe_payload_def show_nat.simps digit_char_def text_bytes_def)

lemma probe_payload_short: "list_all (\<lambda>m. length m < 2 ^ 32) (map probe_payload [0..<3])"
  by (simp add: numeral_3_eq_3 probe_payload_def text_bytes_def show_nat.simps)

section \<open>Properties\<close>

text \<open>
  The probe's own receive loop is \<open>recv_message\<close>: on the same reads and buffer it leaves the same
  reads and buffer behind, returns the same message or read error, and makes an error of the end of
  the stream and of a read that does not come in time.
\<close>

theorem probe_wait_is_recv_message:
  "probe_wait i (hr_reads (rs_inner rs)) (rs_recv_buf rs) =
     (let (x, rs') = half_recv_message rs
      in (case x of
            Pending \<Rightarrow> Inl (context_of ''recv_data timed out'' elapsed_error)
          | Ready (Inl e) \<Rightarrow> Inl (tl e)
          | Ready (Inr None) \<Rightarrow> Inl [''server closed before echo '' @ show_nat i]
          | Ready (Inr (Some m)) \<Rightarrow> Inr m, hr_reads (rs_inner rs'), rs_recv_buf rs'))"
  by (simp add: probe_wait_eq half_recv_message_def probe_answer_def case_prod_beta)

text \<open>
  A probe passes exactly on an echo: on a stream that takes its writes it succeeds if and only if
  the response came in time with status 200 and the first three messages of the bytes received are the
  three it sent, in order, however they were cut into chunks and whatever follows them.
\<close>

theorem the_probe_passes_exactly_on_an_echo:
  assumes "takes_writes (bs_send st)"
  shows "fst (probe_exchange show_status st) = Inr () \<longleftrightarrow>
    (\<exists>headers. bs_response st = In_time (Inr (200, headers)))
    \<and> take 3 (fst (split_frames (concat (leading_chunks (bs_reads st)))))
      = [text_bytes ''probe-0'', text_bytes ''probe-1'', text_bytes ''probe-2'']"
  using probe_exchange_passes [OF assms, of show_status] unfolding probe_payloads .

definition sample_echoed :: "bytes list \<Rightarrow> bare_stream" where
  "sample_echoed cs = \<lparr>bs_send = \<lparr>hw_answers = [], hw_written = []\<rparr>, bs_response = In_time (Inr (200, [])),
     bs_reads = map Chunk cs, bs_tail = Pending\<rparr>"

lemma echoed_frames:
  "split_frames (concat (map encode_frame (map probe_payload [0..<3]))) = (map probe_payload [0..<3], [])"
  using split_frames_encode [OF probe_payload_short, of "[]"]
  by (simp add: split_frames_stop [OF take_frame_short])

theorem the_probe_passes_exactly_on_an_echo_witness:
  "fst (probe_exchange (\<lambda>_. []) (sample_echoed (map encode_frame (map probe_payload [0..<3])))) = Inr ()
   \<and> fst (probe_exchange (\<lambda>_. []) (sample_echoed [])) \<noteq> Inr ()"
proof
  let ?st = "sample_echoed (map encode_frame (map probe_payload [0..<3]))"
  show "fst (probe_exchange (\<lambda>_. []) ?st) = Inr ()"
    using the_probe_passes_exactly_on_an_echo [of ?st "\<lambda>_. []"] echoed_frames
    unfolding probe_payloads by (simp add: sample_echoed_def takes_writes_def)
  show "fst (probe_exchange (\<lambda>_. []) (sample_echoed [])) \<noteq> Inr ()"
    using the_probe_passes_exactly_on_an_echo [of "sample_echoed []" "\<lambda>_. []"]
    by (simp add: sample_echoed_def takes_writes_def split_frames_stop [OF take_frame_short])
qed

text \<open>
  C20: The two programs fit together. Let the echo server program start, and give the probe the file
  it wrote. Where quinn completes a handshake with a client that trusts exactly the chain of the server's
  endpoint and offers its ALPN, nothing else fails on the way, and the probe's stream carries what the
  server's task for that connection writes when it is sent the probe's three frames, in whatever chunks
  both ways, the probe passes; and what it then has written are those frames.
\<close>

theorem the_probe_passes_against_the_echo_server:
  assumes server: "echo_main q ck fa rcgen env arg parse_addr snet incoming fs = (Inr h, fs')"
      "se_config (sh_endpoint h) = Some scfg"
    and cert: "fs' ''server-cert.der'' = Some c" "bn_read net ''server-cert.der'' = Inr c"
    and checks: "ck_root ck c = None" "ck_quic_client ck [c] [ALPN_H3] = None"
    and path: "bn_lookup net (host @ '':'' @ show_nat port) = Inr (addr # addrs)" "parse_u16 p = Inr port"
      "bn_endpoint net (Addr_v4 0 0) = None" "bn_connect net (Addr_v4 0 0) addr name = None" "bn_h3 net = None"
    and tls: "\<And>ccfg. cc_roots ccfg = sc_chain scfg \<Longrightarrow> cc_alpn ccfg = sc_alpn scfg \<Longrightarrow>
      bn_handshake net ccfg addr name BARE_TIMEOUT = Handshake_done"
    and request: "bare_request hck name ''/construct.Echo/BiDi'' = Inr req" "bn_request net req = Inr st"
    and stream: "takes_writes (bs_send st)" "hw_written (bs_send st) = []" "takes_writes s" "hw_written s = []"
      "concat there = concat (map encode_frame (map probe_payload [0..<3]))"
      "i < length incoming" "incoming ! i = (None, None, Accepted (map Chunk there) s # later)"
      "carries (hw_written (hd (snd (sh_task h ! i)))) st"
  shows "probe_main q ck hck net show_status [host, p, ''server-cert.der'', name] = Inr ()
    \<and> concat (map payload (hw_written (snd (probe_exchange show_status st)))) = concat there"
proof
  from server(1) cert(1) obtain k cfg' addr' where key': "server_config q ck \<lparr>cb_cert = c, cb_key_der = k\<rparr> = Inr cfg'"
    and spawned: "spawn_echo_server snet incoming cfg' addr' = Inr h"
    by (auto simp: echo_main_def self_signed_def Let_def
        split: sum.splits write_answer.splits option.splits prod.splits)
  with server(2) spawn_echo_server_eq [OF spawned] have key: "server_config q ck \<lparr>cb_cert = c, cb_key_der = k\<rparr> = Inr scfg"
    and task: "hd (snd (sh_task h ! i)) = snd (echo_request (map Chunk there) s)"
    using stream(6,7) echo_requests_first by (simp_all add: echo_handle_conn_def)
  then obtain ccfg where cfg: "client_config q ck \<lparr>cb_cert = c, cb_key_der = []\<rparr> = Inr ccfg"
    "cc_roots ccfg = sc_chain scfg" "cc_alpn ccfg = sc_alpn scfg"
    using checks by (auto simp: server_config_def client_config_def with_transport_def
        server_config_tuned_def client_config_tuned_def Let_def split: sum.splits option.splits)
  have "hw_written (snd (echo_request (map Chunk there) s)) = echo_head # map Data there"
    using echo_loop_taken [of "s\<lparr>hw_written := [echo_head]\<rparr>" "[]" there] stream(3,4)
    by (simp add: echo_request_def echo_head_def)
  with stream(8) task obtain headers cs where seen: "bs_response st = In_time (Inr (200, headers))"
    "concat cs = concat there" "leading_chunks (bs_reads st) = cs"
    by (auto simp: carries_def echo_head_def split: if_splits)
  then have pass: "fst (probe_exchange show_status st) = Inr ()"
    using probe_exchange_passes [OF stream(1)] stream(5) echoed_frames by simp
  then show "probe_main q ck hck net show_status [host, p, ''server-cert.der'', name] = Inr ()"
    using cert(2) path tls [OF cfg(2,3)] cfg(1) request
    by (simp add: probe_main_def bare_args_of_def bare_call_def bare_connect_def host_port_of_def)
  from pass seen(1) have run: "fst (probe_rounds 3 0 (bs_reads st) [] (bs_send st)) = Inr ()"
    by (auto simp: probe_exchange_def split: prod.splits sum.splits)
  then have "hw_written (snd (probe_exchange show_status st)) =
      map Data (map encode_frame (map probe_payload [0..<3])) @ [Fin]"
    using seen(1) probe_rounds_write [OF stream(1) run] stream(1,2)
    by (cases "probe_rounds 3 0 (bs_reads st) [] (bs_send st)") (auto simp: probe_exchange_def)
  then show "concat (map payload (hw_written (snd (probe_exchange show_status st)))) = concat there"
    using stream(5) by (simp only: map_append concat_append) (simp add: comp_assoc [symmetric])
qed

lemma carries_echo:
  "bs_response st = In_time (Inr (200, [(''content-type'', text_bytes ''application/grpc+proto'')])) \<Longrightarrow>
     bs_reads st = map Chunk there \<Longrightarrow> bs_tail st = Pending \<Longrightarrow> carries (echo_head # map Data there) st"
  by (auto simp: carries_def echo_head_def)

definition sample_probe_net ::
  "bytes \<Rightarrow> bare_stream \<Rightarrow> (nat, unit, unit) transport_config_scheme client_config bare_net" where
  "sample_probe_net c st = \<lparr>bn_read = \<lambda>_. Inr c, bn_lookup = \<lambda>_. Inr [Addr_v4 7 4433], bn_endpoint = \<lambda>_. None,
     bn_connect = \<lambda>_ _ _. None,
     bn_handshake = \<lambda>ccfg _ _ _. if cc_roots ccfg = [c] then Handshake_done else Handshake_failed [''bad cert''],
     bn_h3 = None, bn_request = \<lambda>_. Inr st\<rparr>"

theorem the_probe_passes_against_the_echo_server_witness:
  "probe_main sample_quinn sample_checks \<lparr>hc_uri = \<lambda>_. None, hc_header = \<lambda>_ _. None\<rparr>
     (sample_probe_net [1] \<lparr>bs_send = \<lparr>hw_answers = [], hw_written = []\<rparr>,
        bs_response = In_time (Inr (200, [(''content-type'', text_bytes ''application/grpc+proto'')])),
        bs_reads = map Chunk (map encode_frame (map probe_payload [0..<3])), bs_tail = Pending\<rparr>)
     (\<lambda>_. []) [''localhost'', ''4433'', ''server-cert.der'', ''localhost''] = Inr ()"
proof -
  let ?there = "map encode_frame (map probe_payload [0..<3])"
  let ?s = "\<lparr>hw_answers = [], hw_written = []\<rparr>"
  let ?st = "\<lparr>bs_send = ?s,
        bs_response = In_time (Inr (200, [(''content-type'', text_bytes ''application/grpc+proto'')])),
        bs_reads = map Chunk ?there, bs_tail = Pending\<rparr>"
  let ?hck = "\<lparr>hc_uri = \<lambda>_. None, hc_header = \<lambda>_ _. None\<rparr>"
  let ?incoming = "[(None, None, [Accepted (map Chunk ?there) ?s])]"
  obtain h scfg fs' where server: "echo_main sample_quinn sample_checks \<lparr>fa_read = \<lambda>_. None,
        fa_write = \<lambda>_ _. Written, fa_show = \<lambda>_. []\<rparr> (\<lambda>_. Inr ([1], [2])) Map.empty None (\<lambda>_. None)
        sample_server_net ?incoming Map.empty = (Inr h, fs')"
    and endpoint: "se_config (sh_endpoint h) = Some scfg"
    and facts: "fs' ''server-cert.der'' = Some [1]" "sc_chain scfg = [[1]]"
    and task: "sh_task h = [echo_handle_conn None None [Accepted (map Chunk ?there) ?s]]"
    by (simp add: echo_main_def self_signed_def server_config_def with_transport_def server_config_tuned_def
        default_transport_config_def build_transport_config_def sample_quinn_def sample_checks_def Let_def
        spawn_echo_server_def spawn_echo_on_endpoint_def endpoint_server_def sample_server_net_def anyhow_io_def)
  obtain req where req: "bare_request ?hck ''localhost'' ''/construct.Echo/BiDi'' = Inr req"
    by (simp add: bare_request_def request_builder_def builder_header_def)
  have sent: "hw_written (snd (echo_request (map Chunk ?there) ?s)) = echo_head # map Data ?there"
    using echo_loop_taken [of "?s\<lparr>hw_written := [echo_head]\<rparr>" "[]" ?there]
    by (simp add: echo_request_def echo_head_def takes_writes_def h3_write_def)
  have "carries (hw_written (hd (snd (sh_task h ! 0)))) ?st"
    unfolding task using carries_echo [of ?st ?there] sent echo_requests_first [of "map Chunk ?there" ?s "[]"]
    by (simp add: echo_handle_conn_def)
  note run = the_probe_passes_against_the_echo_server [OF server endpoint facts(1) _ _ _ _ _ _ _ _ _ req
      _ _ _ _ _ _ _ _ this, of "sample_probe_net [1] ?st" "''localhost''" 4433 "Addr_v4 7 4433" "[]" "''4433''", where s = ?s and there = ?there and later = "[]"]
  show ?thesis
    by (rule run [THEN conjunct1])
      (simp_all add: sample_probe_net_def sample_checks_def facts takes_writes_def parse_u16_def from_str_radix_def
        digit_value_def)
qed

end
