(* ===== verification/Smoke.thy ===== *)
theory Smoke
  imports Bare_Client
begin

text \<open>
  The smoke test of a deployed gateway (\<open>src/src/bin/smoke.rs\<close>): one unary call with an empty message
  through the gateway to the real service. It passes on any gRPC status, which may come in the response
  headers or, overriding those, in the trailers. Only the handshake and the response are under a
  timeout: draining the body and waiting for the trailers are not, so a call may be \<open>Pending\<close>.

  The lemmas: \<open>smoke_reads\<close>, the outcome for a response that ended; with \<open>proxied_response\<close> it gives the
  property that spans the gateway.
\<close>

section \<open>The call\<close>

definition DEFAULT_PATH :: string where
  "DEFAULT_PATH = ''/shared.proto.services.v1.MessagingService/GetPendingMessages''"

definition grpc_status_name :: "string \<Rightarrow> string" where
  "grpc_status_name code =
     (if code = ''0'' then ''OK''
      else if code = ''3'' then ''INVALID_ARGUMENT''
      else if code = ''5'' then ''NOT_FOUND''
      else if code = ''7'' then ''PERMISSION_DENIED''
      else if code = ''12'' then ''UNIMPLEMENTED''
      else if code = ''13'' then ''INTERNAL''
      else if code = ''14'' then ''UNAVAILABLE''
      else if code = ''16'' then ''UNAUTHENTICATED''
      else ''(other)'')"

text \<open>\<open>HeaderMap::get\<close> is the first value of a name; \<open>to_str\<close> refuses what is not visible ASCII.\<close>

definition readable_header ::
  "(bytes \<Rightarrow> string option) \<Rightarrow> (string \<times> bytes) list \<Rightarrow> string \<Rightarrow> string option" where
  "readable_header to_str headers name = Option.bind (map_of headers name) to_str"

fun drain_body :: "h3_read list \<Rightarrow> (anyhow + unit) poll" where
  "drain_body [] = Pending"
| "drain_body (Read_error e # reads) = Ready (Inl e)"
| "drain_body (End_of_data # reads) = Ready (Inr ())"
| "drain_body (Chunk b # reads) = drain_body reads"

definition overridden :: "'a option \<Rightarrow> 'a option \<Rightarrow> 'a option" where
  "overridden old new = (case new of Some x \<Rightarrow> Some x | None \<Rightarrow> old)"

text \<open>The status and the message, or the error.\<close>

definition smoke_exchange ::
  "(bytes \<Rightarrow> string option) \<Rightarrow> bare_stream \<Rightarrow> (anyhow + string \<times> string option) poll" where
  "smoke_exchange to_str st =
     (case h3_write (Data (encode_frame [])) (bs_send st) of
        (Inl e, _) \<Rightarrow> Ready (Inl e)
      | (Inr _, s1) \<Rightarrow>
     (case h3_write Fin s1 of
        (Inl e, _) \<Rightarrow> Ready (Inl e)
      | (Inr _, s2) \<Rightarrow>
     (case bs_response st of
        Elapsed \<Rightarrow> Ready (Inl (context_of ''recv_response timed out - bidi headers never arrived'' elapsed_error))
      | In_time (Inl e) \<Rightarrow> Ready (Inl e)
      | In_time (Inr (http_status, headers)) \<Rightarrow>
     (let status = readable_header to_str headers ''grpc-status'';
          message = readable_header to_str headers ''grpc-message'' in
      case drain_body (bs_reads st) of
        Pending \<Rightarrow> Pending
      | Ready (Inl e) \<Rightarrow> Ready (Inl e)
      | Ready (Inr _) \<Rightarrow>
     (case bs_tail st of
        Pending \<Rightarrow> Pending
      | Ready (Inl e) \<Rightarrow> Ready (Inl e)
      | Ready (Inr trailers) \<Rightarrow>
     (let status' = (case trailers of
              None \<Rightarrow> status | Some t \<Rightarrow> overridden status (readable_header to_str t ''grpc-status''));
          message' = (case trailers of
              None \<Rightarrow> message | Some t \<Rightarrow> overridden message (readable_header to_str t ''grpc-message'')) in
      case status' of
        Some code \<Rightarrow> Ready (Inr (code, message'))
      | None \<Rightarrow> Ready (Inl [''no grpc-status returned - request did not reach a gRPC service''])))))))"

definition smoke_line :: "string \<times> string option \<Rightarrow> string" where
  "smoke_line r =
     ''grpc-status: '' @ fst r @ '' ('' @ grpc_status_name (fst r) @ '')''
     @ (case snd r of None \<Rightarrow> [] | Some m \<Rightarrow> '' - '' @ [CHR 0x22] @ m @ [CHR 0x22])"

definition smoke_main ::
  "('i, 'm, 'z) quinn_defaults \<Rightarrow> tls_checks \<Rightarrow> http_checks
     \<Rightarrow> ('i, 'm, 'z) transport_config_scheme client_config bare_net
     \<Rightarrow> (bytes \<Rightarrow> string option) \<Rightarrow> string list \<Rightarrow> (anyhow + string) poll" where
  "smoke_main q ck hck net to_str args =
     (case bare_args_of ''usage: smoke <host> <port> <cert.der> [method-path] [server-name]'' args of
        Inl e \<Rightarrow> Ready (Inl e)
      | Inr a \<Rightarrow>
          (let path = (case ba_rest a of [] \<Rightarrow> DEFAULT_PATH | p # _ \<Rightarrow> p);
               server_name = (case ba_rest a of _ # n # _ \<Rightarrow> n | _ \<Rightarrow> ba_host a) in
           case bare_call q ck hck net ''QUIC handshake timed out - UDP filtered?'' a server_name path of
             Inl e \<Rightarrow> Ready (Inl e)
           | Inr st \<Rightarrow>
               (case smoke_exchange to_str st of
                  Pending \<Rightarrow> Pending
                | Ready r \<Rightarrow> Ready (map_sum id smoke_line r))))"

section \<open>What a response that ended gives\<close>

definition grpc_outcome ::
  "(bytes \<Rightarrow> string option) \<Rightarrow> (string \<times> bytes) list \<Rightarrow> (string \<times> bytes) list option
     \<Rightarrow> anyhow + string \<times> string option" where
  "grpc_outcome to_str headers trailers =
     (let seen = (\<lambda>name.
          case Option.bind trailers (\<lambda>t. readable_header to_str t name) of
            Some x \<Rightarrow> Some x
          | None \<Rightarrow> readable_header to_str headers name) in
      case seen ''grpc-status'' of
        Some code \<Rightarrow> Inr (code, seen ''grpc-message'')
      | None \<Rightarrow> Inl [''no grpc-status returned - request did not reach a gRPC service''])"

lemma drain_body_chunks [simp]: "drain_body (map Chunk cs @ End_of_data # later) = Ready (Inr ())"
  by (induction cs) simp_all

lemma smoke_reads:
  assumes "takes_writes (bs_send st)" and "bs_response st = In_time (Inr (http_status, headers))"
    and "bs_reads st = map Chunk cs @ [End_of_data]" and "bs_tail st = Ready (Inr trailers)"
  shows "smoke_exchange to_str st = Ready (grpc_outcome to_str headers trailers)"
  using assms
  by (cases trailers) (auto simp: smoke_exchange_def grpc_outcome_def overridden_def Let_def split: option.split)

lemma proxied_response:
  assumes "proxy_main uri_ok ua upstream req s = (Ready (Inr ()), s', fate)"
    and "takes_writes s" and "hw_written s = []"
  obtains status headers where "ua_response ua = Ready (Inr (status, headers))"
    and "hw_written s' = Headers status headers # relayed (ua_frames ua) @ [Fin]"
proof -
  from assms obtain status headers where r: "ua_response ua = Ready (Inr (status, headers))"
    by (auto simp: proxy_main_def split: option.splits sum.splits poll.splits prod.splits)
  have "takes_writes (s\<lparr>hw_written := [Headers status headers]\<rparr>)"
    using assms(2) by simp
  note relay = relay_body_taken [OF this, of "ua_frames ua"]
  have "hw_written s' = Headers status headers # relayed (ua_frames ua) @ [Fin]"
    using assms r relay
    by (cases "body_outcome (ua_frames ua)")
      (auto simp: proxy_main_def split: option.splits sum.splits poll.splits prod.splits)
  with r show ?thesis
    by (rule that)
qed

section \<open>Properties\<close>

text \<open>
  C37: Through the gateway the smoke test reads the service's own status. When a proxied call has
  succeeded, whatever the service answered, and the test's stream carries what the proxy wrote to it,
  in whatever chunks, the test ends: with the status and message of the service's trailers, or where
  those have none that can be read, of its headers, and with an error exactly where neither has a
  status.
\<close>

theorem smoke_reads_the_status_through_the_gateway:
  assumes "proxy_main uri_ok ua upstream req s = (Ready (Inr ()), s', fate)"
    and "takes_writes s" and "hw_written s = []"
    and "carries (hw_written s') st" and "takes_writes (bs_send st)"
  shows "\<exists>status headers. ua_response ua = Ready (Inr (status, headers))
    \<and> smoke_exchange to_str st = Ready (grpc_outcome to_str headers (trailers_in (relayed (ua_frames ua))))"
proof -
  obtain status headers where r: "ua_response ua = Ready (Inr (status, headers))"
    and w: "hw_written s' = Headers status headers # relayed (ua_frames ua) @ [Fin]"
    using proxied_response [OF assms(1-3)] by blast
  from assms(4) w obtain cs where "bs_response st = In_time (Inr (status, headers))"
    "bs_reads st = map Chunk cs @ [End_of_data]"
    "bs_tail st = Ready (Inr (trailers_in (relayed (ua_frames ua))))"
    by (auto simp: carries_def split: option.splits)
  from smoke_reads [OF assms(5) this] r show ?thesis
    by blast
qed

theorem smoke_reads_the_status_through_the_gateway_witness:
  "smoke_exchange (\<lambda>v. Some (if v = [48] then ''0'' else ''2''))
     \<lparr>bs_send = \<lparr>hw_answers = [], hw_written = []\<rparr>,
      bs_response = In_time (Inr (200, [(''grpc-status'', [50])])), bs_reads = [Chunk [1], End_of_data],
      bs_tail = Ready (Inr (Some [(''grpc-status'', [48])]))\<rparr> = Ready (Inr (''0'', None))"
proof -
  let ?ua = "\<lparr>ua_dial = None, ua_h2 = None, ua_response = Ready (Inr (200, [(''grpc-status'', [50])])),
      ua_down_ok = None, ua_frames = [Frame_data [1], Frame_trailers [(''grpc-status'', [48])], Body_end]\<rparr>"
  let ?s = "\<lparr>hw_answers = [], hw_written = []\<rparr>"
  let ?st = "\<lparr>bs_send = ?s, bs_response = In_time (Inr (200, [(''grpc-status'', [50])])),
      bs_reads = [Chunk [1], End_of_data], bs_tail = Ready (Inr (Some [(''grpc-status'', [48])]))\<rparr>"
  have run: "proxy_main (\<lambda>_. None) ?ua ''envoy:8080''
      \<lparr>pr_method = ''POST'', pr_path = Some ''/S/M'', pr_headers = []\<rparr> ?s =
    (Ready (Inr ()), \<lparr>hw_answers = [], hw_written = [Headers 200 [(''grpc-status'', [50])], Data [1],
        Trailers [(''grpc-status'', [48])], Fin]\<rparr>, Stopped_by_call)"
    by (simp add: proxy_main_def build_upstream_def h3_write_def)
  have "carries [Headers 200 [(''grpc-status'', [50])], Data [1], Trailers [(''grpc-status'', [48])], Fin] ?st"
    by (auto simp: carries_def intro!: exI [of _ "[[1]]"])
  from smoke_reads_the_status_through_the_gateway [OF run, of ?st "\<lambda>v. Some (if v = [48] then ''0'' else ''2'')"] this
  show ?thesis
    by (simp add: takes_writes_def grpc_outcome_def overridden_def readable_header_def Let_def)
qed

end
