(* ===== verification/Proxy_Pipe.thy ===== *)
theory Proxy_Pipe
  imports Proxy
begin

text \<open>
  What a proxied call (\<open>proxy_request\<close> and its pump in \<open>src/src/proxy.rs\<close>) promises of the request
  body, without its parts: the chunks of the client go through one after the other, none twice and none
  out of order; the body ends cleanly at the last of them, or earlier once the call has returned \<open>Ok\<close>,
  or the upstream lets go of it. \<open>pipe_step\<close> is that contract, and the call with its pump, its channel
  and hyper refines it (\<open>piped_call\<close>).
\<close>

section \<open>The contract\<close>

datatype pipe_end = Flowing | Complete | Truncated | Let_go

record pipe =
  pi_left :: "bytes list"
  pi_through :: "bytes list"
  pi_returned :: bool
  pi_end :: pipe_end

inductive pipe_step :: "pipe \<Rightarrow> pipe \<Rightarrow> bool" where
  passes: "pi_end p = Flowing \<Longrightarrow> pi_left p = b # bs \<Longrightarrow>
      pipe_step p (p\<lparr>pi_left := bs, pi_through := pi_through p @ [b]\<rparr>)"
| returns: "pipe_step p (p\<lparr>pi_returned := True\<rparr>)"
| completes: "pi_end p = Flowing \<Longrightarrow> pi_left p = [] \<Longrightarrow> pipe_step p (p\<lparr>pi_end := Complete\<rparr>)"
| truncates: "pi_end p = Flowing \<Longrightarrow> pi_returned p \<Longrightarrow> pi_left p \<noteq> [] \<Longrightarrow> pipe_step p (p\<lparr>pi_end := Truncated\<rparr>)"
| lets_go: "pi_end p = Flowing \<Longrightarrow> pipe_step p (p\<lparr>pi_end := Let_go\<rparr>)"

section \<open>The call refines it\<close>

definition pipe_of :: "h3_read list \<Rightarrow> call \<Rightarrow> pipe" where
  "pipe_of reads k =
     \<lparr>pi_left = drop (length (k_sent k)) (leading_chunks reads), pi_through = k_sent k,
      pi_returned = (k_main k = Call_ok),
      pi_end = (if k_ended k then (if k_sent k = leading_chunks reads then Complete else Truncated)
                else if k_body k then Flowing else Let_go)\<rparr>"

lemma pipe_of_takes:
  assumes "call_inv reads k" and "k_body k" and "\<not> k_ended k" and "k_queue k = b # bs"
  shows "pipe_step (pipe_of reads k) (pipe_of reads (k\<lparr>k_queue := bs, k_sent := k_sent k @ [b]\<rparr>))"
proof -
  from assms(1,4) obtain rest where "leading_chunks reads = k_sent k @ b # rest"
    by (auto simp: call_inv_def prefix_def)
  with assms(2,3) passes [of "pipe_of reads k" b rest] show ?thesis
    by (simp add: pipe_of_def)
qed

lemma pipe_of_ends:
  assumes "call_inv reads k" and "k_body k" and "k_queue k = []" and "pump_over (k_pump k)"
  shows "pipe_step\<^sup>*\<^sup>* (pipe_of reads k) (pipe_of reads (k\<lparr>k_ended := True\<rparr>))"
proof (cases "k_ended k")
  case False
  show ?thesis
  proof (cases "k_sent k = leading_chunks reads")
    case True
    with False assms(2) completes [of "pipe_of reads k"] show ?thesis
      by (auto simp: pipe_of_def)
  next
    case shorter: False
    with assms have "k_main k = Call_ok" and "prefix (k_sent k) (leading_chunks reads)"
      by (auto simp: call_inv_def pump_over_def)
    with shorter have "drop (length (k_sent k)) (leading_chunks reads) \<noteq> []" "k_main k = Call_ok"
      by (auto simp: prefix_def)
    with shorter False assms(2) truncates [of "pipe_of reads k"] show ?thesis
      by (auto simp: pipe_of_def)
  qed
qed (simp add: pipe_of_def)

lemma pipe_of_step: "call_step k k' \<Longrightarrow> call_inv reads k \<Longrightarrow> pipe_step\<^sup>*\<^sup>* (pipe_of reads k) (pipe_of reads k')"
proof (induction rule: call_step.induct)
  case (hyper_takes k b bs)
  then show ?case
    using pipe_of_takes by blast
next
  case (hyper_ends k)
  then show ?case
    using pipe_of_ends by blast
next
  case (hyper_drops k)
  then show ?case
    using lets_go [of "pipe_of reads k"] by (cases "k_ended k") (auto simp: pipe_of_def)
next
  case (call_ok k)
  then show ?case
    using returns [of "pipe_of reads k"] by (auto simp: pipe_of_def)
qed (simp_all add: pipe_of_def)

interpretation piped_call: refinement call_step "call_inv reads" pipe_step "pipe_of reads"
  for reads
  by unfold_locales (rule pipe_of_step)

definition pipe_ok :: "bytes list \<Rightarrow> pipe \<Rightarrow> bool" where
  "pipe_ok chunks p \<longleftrightarrow> pi_through p @ pi_left p = chunks
     \<and> (pi_end p = Complete \<longrightarrow> pi_left p = []) \<and> (pi_end p = Truncated \<longrightarrow> pi_returned p)"

interpretation pipe: transition_invariant pipe_step "pipe_ok chunks" for chunks
proof
  show "pipe_step p p' \<Longrightarrow> pipe_ok chunks p \<Longrightarrow> pipe_ok chunks p'" for p p'
    by (induction rule: pipe_step.induct) (auto simp: pipe_ok_def)
qed

section \<open>Properties\<close>

text \<open>
  C11: A proxied call is a pipe. Every run of the pump, the channel of 64 frames, hyper and the call,
  interleaved in any way, is a run of a relation that knows none of them: it passes the client's next
  chunk on, ends the body at the last one, ends it earlier only after the call has returned \<open>Ok\<close>, or is
  let go of by the upstream; so at every moment what is through and what is left are the client's
  chunks, and a body that looks finished and is not belongs to a call that returned.
\<close>

theorem a_proxied_call_is_a_pipe:
  assumes "call_reaches reads k"
  shows "pipe_step\<^sup>*\<^sup>* \<lparr>pi_left = leading_chunks reads, pi_through = [], pi_returned = False, pi_end = Flowing\<rparr>
      (pipe_of reads k)
    \<and> pipe_ok (leading_chunks reads) (pipe_of reads k)"
proof -
  have start: "pipe_of reads (start_call reads)
      = \<lparr>pi_left = leading_chunks reads, pi_through = [], pi_returned = False, pi_end = Flowing\<rparr>"
    by (simp add: pipe_of_def start_call_def)
  moreover have "pipe_ok (leading_chunks reads) (pipe_of reads (start_call reads))"
    by (simp add: start pipe_ok_def)
  ultimately show ?thesis
    using assms piped_call.refines [OF _ call_inv_start] piped_call.inherits [OF pipe.transition_invariant_axioms _ call_inv_start]
    unfolding call_reaches_def by metis
qed

theorem a_proxied_call_is_a_pipe_witness:
  "pipe_of [Chunk [1], End_of_data] \<lparr>k_reads = [], k_pump = Pump_done, k_queue = [], k_body = True,
      k_sent = [[1]], k_ended = True, k_main = Relaying\<rparr>
     = \<lparr>pi_left = [], pi_through = [[1]], pi_returned = False, pi_end = Complete\<rparr>
   \<and> pipe_ok [[1]] \<lparr>pi_left = [], pi_through = [[1]], pi_returned = False, pi_end = Complete\<rparr>"
  using a_proxied_call_is_a_pipe [OF one_chunk_run [of End_of_data "[]" "[1]"]] by (simp add: pipe_of_def)

end
