(* ===== verification/Proxy_Run.thy ===== *)
theory Proxy_Run
  imports Proxy_Pipe
begin

text \<open>
  One proxied call as a whole (\<open>proxy_request\<close> in \<open>src/src/proxy.rs\<close>): the handler goes from one
  \<open>await\<close> to the next (\<open>main_next\<close>) while its pump, the channel and hyper run; the pump begins when the
  upstream request has been built, and is stopped by the last step of a call that succeeds.

  The lemmas: the handler driven to its end is \<open>proxy_main\<close> (\<open>main_from_proxy_main\<close>), so what the others
  do does not change what the call answers; and every run is a run of \<open>call_step\<close> (\<open>whole_call\<close>), so
  what holds of the body in general holds of the body of this handler.
\<close>

section \<open>The handler\<close>

text \<open>Where the handler is; each stage but the last ends in an \<open>await\<close>.\<close>

datatype handler_stage =
    Dial
  | H2_handshake
  | Build_request
  | Await_response
  | Send_response u16 "(string \<times> bytes) list"
  | Relay "body_answer list"
  | Finish
  | Returned "anyhow + unit" pump_fate

fun main_next ::
  "(string \<Rightarrow> anyhow option) \<Rightarrow> upstream_answers \<Rightarrow> string \<Rightarrow> proxied \<Rightarrow> handler_stage \<Rightarrow> h3_send
     \<Rightarrow> (handler_stage \<times> h3_send) option" where
  "main_next uri_ok ua upstream req Dial s =
     (case ua_dial ua of
        Some e \<Rightarrow> Some (Returned (Inl (context_of (''dial upstream '' @ upstream) e)) Not_started, s)
      | None \<Rightarrow> Some (H2_handshake, s))"
| "main_next uri_ok ua upstream req H2_handshake s =
     (case ua_h2 ua of
        Some e \<Rightarrow> Some (Returned (Inl (context_of ''upstream h2 handshake'' e)) Not_started, s)
      | None \<Rightarrow> Some (Build_request, s))"
| "main_next uri_ok ua upstream req Build_request s =
     (case build_upstream uri_ok req upstream of
        Inl e \<Rightarrow> Some (Returned (Inl e) Not_started, s)
      | Inr up_req \<Rightarrow> Some (Await_response, s))"
| "main_next uri_ok ua upstream req Await_response s =
     (case ua_response ua of
        Pending \<Rightarrow> None
      | Ready (Inl e) \<Rightarrow> Some (Returned (Inl (context_of ''upstream send_request'' e)) Left_running, s)
      | Ready (Inr (status, headers)) \<Rightarrow>
          (case ua_down_ok ua of
             Some e \<Rightarrow> Some (Returned (Inl (context_of ''build downstream response'' e)) Left_running, s)
           | None \<Rightarrow> Some (Send_response status headers, s)))"
| "main_next uri_ok ua upstream req (Send_response status headers) s =
     (case h3_write (Headers status headers) s of
        (Inl e, s') \<Rightarrow> Some (Returned (Inl (context_of ''h3 send_response'' e)) Left_running, s')
      | (Inr _, s') \<Rightarrow> Some (Relay (ua_frames ua), s'))"
| "main_next uri_ok ua upstream req (Relay []) s = None"
| "main_next uri_ok ua upstream req (Relay (Body_end # fs)) s = Some (Finish, s)"
| "main_next uri_ok ua upstream req (Relay (Frame_failed e # fs)) s =
     Some (Returned (Inl (context_of ''upstream body frame'' e)) Left_running, s)"
| "main_next uri_ok ua upstream req (Relay (Frame_data data # fs)) s =
     (case h3_write (Data data) s of
        (Inl e, s') \<Rightarrow> Some (Returned (Inl (context_of ''h3 send_data'' e)) Left_running, s')
      | (Inr _, s') \<Rightarrow> Some (Relay fs, s'))"
| "main_next uri_ok ua upstream req (Relay (Frame_trailers trailers # fs)) s =
     (case h3_write (Trailers trailers) s of
        (Inl e, s') \<Rightarrow> Some (Returned (Inl (context_of ''h3 send_trailers'' e)) Left_running, s')
      | (Inr _, s') \<Rightarrow> Some (Relay fs, s'))"
| "main_next uri_ok ua upstream req Finish s =
     (case h3_write Fin s of
        (Inl e, s') \<Rightarrow> Some (Returned (Inl (context_of ''h3 finish'' e)) Left_running, s')
      | (Inr _, s') \<Rightarrow> Some (Returned (Inr ()) Stopped_by_call, s'))"
| "main_next uri_ok ua upstream req (Returned r fate) s = None"

text \<open>The stages that are left, for the run of the handler alone.\<close>

primrec stages_left :: "upstream_answers \<Rightarrow> handler_stage \<Rightarrow> nat" where
  "stages_left ua Dial = 7 + length (ua_frames ua)"
| "stages_left ua H2_handshake = 6 + length (ua_frames ua)"
| "stages_left ua Build_request = 5 + length (ua_frames ua)"
| "stages_left ua Await_response = 4 + length (ua_frames ua)"
| "stages_left ua (Send_response status headers) = 3 + length (ua_frames ua)"
| "stages_left ua (Relay fs) = 2 + length fs"
| "stages_left ua Finish = 1"
| "stages_left ua (Returned r fate) = 0"

lemma main_next_works:
  "main_next uri_ok ua upstream req st s = Some (st', s') \<Longrightarrow> stages_left ua st' < stages_left ua st"
  by (induction uri_ok ua upstream req st s rule: main_next.induct)
    (auto split: option.splits sum.splits poll.splits prod.splits)

primrec answer_at :: "handler_stage \<Rightarrow> (anyhow + unit) poll \<times> pump_fate" where
  "answer_at Dial = (Pending, Not_started)"
| "answer_at H2_handshake = (Pending, Not_started)"
| "answer_at Build_request = (Pending, Not_started)"
| "answer_at Await_response = (Pending, Left_running)"
| "answer_at (Send_response status headers) = (Pending, Left_running)"
| "answer_at (Relay fs) = (Pending, Left_running)"
| "answer_at Finish = (Pending, Left_running)"
| "answer_at (Returned r fate) = (Ready r, fate)"

function main_from ::
  "(string \<Rightarrow> anyhow option) \<Rightarrow> upstream_answers \<Rightarrow> string \<Rightarrow> proxied \<Rightarrow> handler_stage \<Rightarrow> h3_send
     \<Rightarrow> (anyhow + unit) poll \<times> h3_send \<times> pump_fate" where
  "main_from uri_ok ua upstream req st s =
     (case main_next uri_ok ua upstream req st s of
        None \<Rightarrow> (fst (answer_at st), s, snd (answer_at st))
      | Some (st', s') \<Rightarrow> main_from uri_ok ua upstream req st' s')"
  by pat_completeness auto
termination
  by (relation "measure (\<lambda>(uri_ok, ua, upstream, req, st, s). stages_left ua st)")
    (auto simp: main_next_works)

declare main_from.simps [simp del]

lemma main_from_step:
  "main_next uri_ok ua upstream req st s = Some (st', s') \<Longrightarrow>
     main_from uri_ok ua upstream req st s = main_from uri_ok ua upstream req st' s'"
  by (simp add: main_from.simps [of _ _ _ _ st])

lemma main_from_stop:
  "main_next uri_ok ua upstream req st s = None \<Longrightarrow>
     main_from uri_ok ua upstream req st s = (fst (answer_at st), s, snd (answer_at st))"
  by (simp add: main_from.simps [of _ _ _ _ st])

lemma main_from_returned [simp]:
  "main_from uri_ok ua upstream req (Returned r fate) s = (Ready r, s, fate)"
  by (simp add: main_from_stop)

lemma main_from_finish:
  "main_from uri_ok ua upstream req Finish s =
     (case h3_write Fin s of
        (Inl e, s') \<Rightarrow> (Ready (Inl (context_of ''h3 finish'' e)), s', Left_running)
      | (Inr _, s') \<Rightarrow> (Ready (Inr ()), s', Stopped_by_call))"
  by (simp add: main_from.simps [of _ _ _ _ Finish] split: prod.splits sum.splits)

lemma main_from_relay:
  "main_from uri_ok ua upstream req (Relay fs) s =
     (case relay_body fs s of
        (Ready (Inr _), s2) \<Rightarrow> main_from uri_ok ua upstream req Finish s2
      | (r, s2) \<Rightarrow> (r, s2, Left_running))"
  by (induction fs s rule: relay_body.induct)
    (simp_all add: main_from.simps [of _ _ _ _ "Relay _"] split: prod.splits sum.splits)

lemma main_from_proxy_main: "main_from uri_ok ua upstream req Dial s = proxy_main uri_ok ua upstream req s"
  by (simp add: main_from.simps [of _ _ _ _ Dial] main_from.simps [of _ _ _ _ H2_handshake]
      main_from.simps [of _ _ _ _ Build_request] main_from.simps [of _ _ _ _ Await_response]
      main_from.simps [of _ _ _ _ "Send_response _ _"] main_from_relay main_from_finish proxy_main_def
      split: option.splits sum.splits poll.splits prod.splits)

section \<open>The call with its pump\<close>

text \<open>
  \<open>rn_call\<close> is the pump, the channel and hyper, from the moment the pump is spawned. What a step of the
  handler means for them is \<open>entering\<close>: the pump begins with the request, and \<open>Returned\<close> is the end of the
  call, which stops a pump that is not over when the call succeeded.
\<close>

record run =
  rn_stage :: handler_stage
  rn_send :: h3_send
  rn_call :: "call option"

fun entering :: "h3_read list \<Rightarrow> handler_stage \<Rightarrow> call option \<Rightarrow> call option" where
  "entering reads Await_response c = Some (start_call reads)"
| "entering reads (Returned (Inr _) fate) (Some k) =
     Some (k\<lparr>k_main := Call_ok, k_pump := (if pump_over (k_pump k) then k_pump k else Pump_aborted)\<rparr>)"
| "entering reads (Returned (Inl e) fate) (Some k) = Some (k\<lparr>k_main := Call_failed\<rparr>)"
| "entering reads st c = c"

inductive run_step ::
  "(string \<Rightarrow> anyhow option) \<Rightarrow> upstream_answers \<Rightarrow> string \<Rightarrow> proxied \<Rightarrow> h3_read list \<Rightarrow> run \<Rightarrow> run \<Rightarrow> bool"
  for uri_ok ua upstream req reads where
  handler [step_intros]:
    "main_next uri_ok ua upstream req (rn_stage w) (rn_send w) = Some (st, s) \<Longrightarrow>
       run_step uri_ok ua upstream req reads w \<lparr>rn_stage = st, rn_send = s, rn_call = entering reads st (rn_call w)\<rparr>"
| pump_and_hyper [step_intros]:
    "rn_call w = Some k \<Longrightarrow> call_step k k' \<Longrightarrow> k_main k' = k_main k \<Longrightarrow>
       run_step uri_ok ua upstream req reads w (w\<lparr>rn_call := Some k'\<rparr>)"

definition start_run :: "h3_send \<Rightarrow> run" where
  "start_run s = \<lparr>rn_stage = Dial, rn_send = s, rn_call = None\<rparr>"

definition run_reaches ::
  "(string \<Rightarrow> anyhow option) \<Rightarrow> upstream_answers \<Rightarrow> string \<Rightarrow> proxied \<Rightarrow> h3_read list \<Rightarrow> h3_send \<Rightarrow> run \<Rightarrow> bool" where
  "run_reaches uri_ok ua upstream req reads s w \<longleftrightarrow> (run_step uri_ok ua upstream req reads)\<^sup>*\<^sup>* (start_run s) w"

text \<open>Whether the pump has been spawned, and how the call has ended so far, can be read off the stage.\<close>

fun call_fits :: "handler_stage \<Rightarrow> call option \<Rightarrow> bool" where
  "call_fits Dial c \<longleftrightarrow> c = None"
| "call_fits H2_handshake c \<longleftrightarrow> c = None"
| "call_fits Build_request c \<longleftrightarrow> c = None"
| "call_fits (Returned r Not_started) c \<longleftrightarrow> c = None \<and> r \<noteq> Inr ()"
| "call_fits (Returned r Left_running) c \<longleftrightarrow> (\<exists>k. c = Some k \<and> k_main k = Call_failed) \<and> r \<noteq> Inr ()"
| "call_fits (Returned r Stopped_by_call) c \<longleftrightarrow>
     (\<exists>k. c = Some k \<and> k_main k = Call_ok \<and> pump_over (k_pump k)) \<and> r = Inr ()"
| "call_fits st c \<longleftrightarrow> (\<exists>k. c = Some k \<and> k_main k = Relaying)"

lemma pump_stays_over: "call_step k k' \<Longrightarrow> pump_over (k_pump k) \<Longrightarrow> pump_over (k_pump k')"
  by (induction rule: call_step.induct) (auto simp: pump_over_def)

lemma call_fits_pump:
  "call_fits st (Some k) \<Longrightarrow> call_step k k' \<Longrightarrow> k_main k' = k_main k \<Longrightarrow> call_fits st (Some k')"
  by (induction st "Some k" rule: call_fits.induct) (auto intro: pump_stays_over)

lemma call_fits_handler:
  "main_next uri_ok ua upstream req st s = Some (st', s') \<Longrightarrow> call_fits st c \<Longrightarrow>
     call_fits st' (entering reads st' c)"
  by (induction uri_ok ua upstream req st s rule: main_next.induct)
    (auto simp: start_call_def pump_over_def split: option.splits sum.splits poll.splits prod.splits)

text \<open>
  The invariant: the stage and the pump fit, and the handler is on the way of \<open>proxy_main\<close>: what it would
  answer if nothing else happened is what it would have answered from the start.
\<close>

definition run_inv ::
  "(string \<Rightarrow> anyhow option) \<Rightarrow> upstream_answers \<Rightarrow> string \<Rightarrow> proxied \<Rightarrow> h3_send \<Rightarrow> run \<Rightarrow> bool" where
  "run_inv uri_ok ua upstream req s w \<longleftrightarrow>
     call_fits (rn_stage w) (rn_call w)
     \<and> main_from uri_ok ua upstream req (rn_stage w) (rn_send w) = proxy_main uri_ok ua upstream req s"

lemma run_inv_start: "run_inv uri_ok ua upstream req s (start_run s)"
  by (simp add: run_inv_def start_run_def main_from_proxy_main)

lemma run_inv_step:
  "run_step uri_ok ua upstream req reads w w' \<Longrightarrow> run_inv uri_ok ua upstream req s w \<Longrightarrow>
     run_inv uri_ok ua upstream req s w'"
  by (induction rule: run_step.induct)
    (auto simp: run_inv_def main_from_step intro: call_fits_handler call_fits_pump)

text \<open>As a call: before the pump is spawned nothing of the body has moved.\<close>

definition call_of :: "h3_read list \<Rightarrow> run \<Rightarrow> call" where
  "call_of reads w = (case rn_call w of None \<Rightarrow> start_call reads | Some k \<Rightarrow> k)"

lemma call_ends:
  assumes "k_main k = Relaying"
  shows "call_step\<^sup>*\<^sup>* k (k\<lparr>k_main := Call_failed\<rparr>)"
    and "pump_over (k_pump k) \<Longrightarrow> call_step\<^sup>*\<^sup>* k (k\<lparr>k_main := Call_ok\<rparr>)"
    and "\<not> pump_over (k_pump k) \<Longrightarrow> call_step\<^sup>*\<^sup>* k (k\<lparr>k_main := Call_ok, k_pump := Pump_aborted\<rparr>)"
  using call_step.call_fails [OF assms] call_step.call_ok [OF assms] by auto

lemma call_of_handler:
  assumes "main_next uri_ok ua upstream req st s = Some (st', s')" and "call_fits st c"
  shows "call_step\<^sup>*\<^sup>* (case c of None \<Rightarrow> start_call reads | Some k \<Rightarrow> k)
    (case entering reads st' c of None \<Rightarrow> start_call reads | Some k \<Rightarrow> k)"
  using assms
  by (induction uri_ok ua upstream req st s rule: main_next.induct)
    (auto split: option.splits sum.splits poll.splits prod.splits intro!: call_ends)

lemma call_of_step:
  assumes "run_step uri_ok ua upstream req reads w w'" and "run_inv uri_ok ua upstream req s w"
  shows "call_step\<^sup>*\<^sup>* (call_of reads w) (call_of reads w')"
  using assms
proof (induction rule: run_step.induct)
  case (handler w st s')
  then show ?case
    using call_of_handler [of uri_ok ua upstream req "rn_stage w" "rn_send w" st s' "rn_call w" reads]
    by (simp add: run_inv_def call_of_def)
qed (auto simp: call_of_def)

interpretation whole_call: refinement "run_step uri_ok ua upstream req reads" "run_inv uri_ok ua upstream req s"
  call_step "call_of reads"
  for uri_ok ua upstream req reads s
  by unfold_locales (erule (1) run_inv_step, erule (1) call_of_step)

lemma run_reaches_inv:
  "run_reaches uri_ok ua upstream req reads s w \<Longrightarrow> run_inv uri_ok ua upstream req s w"
  unfolding run_reaches_def by (rule whole_call.reached [OF _ run_inv_start])

lemma run_reaches_call:
  assumes "run_reaches uri_ok ua upstream req reads s w"
  shows "call_reaches reads (call_of reads w)"
proof -
  have "call_of reads (start_run s) = start_call reads"
    by (simp add: call_of_def start_run_def)
  with whole_call.refines [OF assms [unfolded run_reaches_def] run_inv_start] show ?thesis
    by (simp add: call_reaches_def)
qed

lemma handler_alone:
  "\<exists>w'. (run_step uri_ok ua upstream req reads)\<^sup>*\<^sup>* w w'
     \<and> main_next uri_ok ua upstream req (rn_stage w') (rn_send w') = None"
proof (induction "stages_left ua (rn_stage w)" arbitrary: w rule: less_induct)
  case less
  show ?case
  proof (cases "main_next uri_ok ua upstream req (rn_stage w) (rn_send w)")
    case (Some moved)
    then obtain st s where n: "main_next uri_ok ua upstream req (rn_stage w) (rn_send w) = Some (st, s)"
      by (cases moved) auto
    let ?w = "\<lparr>rn_stage = st, rn_send = s, rn_call = entering reads st (rn_call w)\<rparr>"
    have "stages_left ua (rn_stage ?w) < stages_left ua (rn_stage w)"
      using main_next_works [OF n] by simp
    from less.hyps [OF this] obtain w' where "(run_step uri_ok ua upstream req reads)\<^sup>*\<^sup>* ?w w'"
      "main_next uri_ok ua upstream req (rn_stage w') (rn_send w') = None"
      by blast
    with run_step.handler [OF n, of reads] show ?thesis
      by (meson converse_rtranclp_into_rtranclp)
  qed blast
qed

lemma run_inv_returned:
  assumes "run_inv uri_ok ua upstream req s w" and "rn_stage w = Returned r fate"
  shows "proxy_main uri_ok ua upstream req s = (Ready r, rn_send w, fate)"
  using assms by (simp add: run_inv_def)

lemma call_fits_ok:
  "call_fits st c \<Longrightarrow> (\<exists>k. c = Some k \<and> k_main k = Call_ok) \<longleftrightarrow> (\<exists>fate. st = Returned (Inr ()) fate)"
  by (induction st c rule: call_fits.induct) auto

lemma main_next_writes:
  "main_next uri_ok ua upstream req st s = Some (st', s') \<Longrightarrow> prefix (hw_written s) (hw_written s')"
  by (induction uri_ok ua upstream req st s rule: main_next.induct)
    (auto split: option.splits sum.splits poll.splits prod.splits dest!: h3_write_result)

lemma main_from_writes:
  "main_from uri_ok ua upstream req st s = (r, s', fate) \<Longrightarrow> prefix (hw_written s) (hw_written s')"
proof (induction uri_ok ua upstream req st s rule: main_from.induct)
  case (1 uri_ok ua upstream req st s)
  show ?case
  proof (cases "main_next uri_ok ua upstream req st s")
    case None
    with "1.prems" show ?thesis
      by (simp add: main_from_stop)
  next
    case (Some moved)
    then obtain st1 s1 where n: "main_next uri_ok ua upstream req st s = Some (st1, s1)"
      by (cases moved) auto
    with "1.IH" [OF n refl] "1.prems" main_next_writes [OF n] show ?thesis
      by (metis main_from_step prefix_order.trans)
  qed
qed

text \<open>At every moment the call has written a part of what it will have written.\<close>

lemma run_inv_writes:
  assumes "run_inv uri_ok ua upstream req s w" and "proxy_main uri_ok ua upstream req s = (r, s', fate)"
  shows "prefix (hw_written (rn_send w)) (hw_written s')"
  using assms main_from_writes by (metis run_inv_def)

text \<open>Any run of the body in which the call is still on its way can be had while the handler waits.\<close>

lemma relaying_before: "call_step k k' \<Longrightarrow> k_main k' = Relaying \<Longrightarrow> k_main k = Relaying"
  by (induction rule: call_step.induct) auto

lemma body_runs:
  "call_step\<^sup>*\<^sup>* k k' \<Longrightarrow> k_main k' = Relaying \<Longrightarrow> rn_call w = Some k \<Longrightarrow>
     (run_step uri_ok ua upstream req reads)\<^sup>*\<^sup>* w (w\<lparr>rn_call := Some k'\<rparr>)"
proof (induction rule: rtranclp_induct)
  case (step k1 k2)
  have main: "k_main k1 = Relaying"
    using relaying_before [OF step(2,4)] .
  with step have "(run_step uri_ok ua upstream req reads)\<^sup>*\<^sup>* w (w\<lparr>rn_call := Some k1\<rparr>)"
    by blast
  moreover have "run_step uri_ok ua upstream req reads (w\<lparr>rn_call := Some k1\<rparr>) (w\<lparr>rn_call := Some k2\<rparr>)"
    using run_step.pump_and_hyper [of "w\<lparr>rn_call := Some k1\<rparr>" k1 k2] step(2,4) main by simp
  ultimately show ?case
    by simp
qed (cases w, simp)

lemma handler_finishes:
  assumes "main_from uri_ok ua upstream req st s = (Ready r, s', fate)" and "call_fits st (Some k)"
    and "k_main k = Relaying" and "pump_over (k_pump k)"
  shows "(run_step uri_ok ua upstream req reads)\<^sup>*\<^sup>* \<lparr>rn_stage = st, rn_send = s, rn_call = Some k\<rparr>
    \<lparr>rn_stage = Returned r fate, rn_send = s',
     rn_call = Some (k\<lparr>k_main := (case r of Inl e \<Rightarrow> Call_failed | Inr _ \<Rightarrow> Call_ok)\<rparr>)\<rparr>"
  using assms(1,2)
proof (induction "stages_left ua st" arbitrary: st s rule: less_induct)
  case less
  have "main_next uri_ok ua upstream req st s \<noteq> None"
  proof
    assume "main_next uri_ok ua upstream req st s = None"
    from main_from_stop [OF this] less.prems(1) have "st = Returned r fate"
      by (cases st) simp_all
    with less.prems(2) assms(3) show False
      by (cases fate) auto
  qed
  then obtain st1 s1 where n: "main_next uri_ok ua upstream req st s = Some (st1, s1)"
    by auto
  let ?w = "\<lparr>rn_stage = st, rn_send = s, rn_call = Some k\<rparr>"
  have one: "run_step uri_ok ua upstream req reads ?w
      \<lparr>rn_stage = st1, rn_send = s1, rn_call = entering reads st1 (Some k)\<rparr>"
    using run_step.handler [of uri_ok ua upstream req ?w st1 s1 reads] n by simp
  have fits: "call_fits st1 (entering reads st1 (Some k))"
    by (rule call_fits_handler [OF n less.prems(2)])
  have rest: "main_from uri_ok ua upstream req st1 s1 = (Ready r, s', fate)"
    using less.prems(1) main_from_step [OF n] by simp
  show ?case
  proof (cases "\<exists>r1 fate1. st1 = Returned r1 fate1")
    case True
    with rest have "st1 = Returned r fate" "s1 = s'"
      by auto
    with one assms(4) show ?thesis
      by (cases r) auto
  next
    case False
    then have "entering reads st1 (Some k) = Some k"
      using n less.prems(2) by (induction uri_ok ua upstream req st s rule: main_next.induct)
        (auto split: option.splits sum.splits poll.splits prod.splits)
    with fits one rest less.hyps [OF main_next_works [OF n] rest] show ?thesis
      by (metis converse_rtranclp_into_rtranclp)
  qed
qed

lemma run_to_the_end:
  assumes "ua_dial ua = None" and "ua_h2 ua = None" and "build_upstream uri_ok req upstream = Inr up_req"
    and "proxy_main uri_ok ua upstream req s = (Ready r, s', fate)"
    and "call_reaches reads k" and "k_main k = Relaying" and "pump_over (k_pump k)"
  shows "run_reaches uri_ok ua upstream req reads s
    \<lparr>rn_stage = Returned r fate, rn_send = s',
     rn_call = Some (k\<lparr>k_main := (case r of Inl e \<Rightarrow> Call_failed | Inr _ \<Rightarrow> Call_ok)\<rparr>)\<rparr>"
proof -
  let ?w = "\<lambda>c. \<lparr>rn_stage = Await_response, rn_send = s, rn_call = Some c\<rparr>"
  let ?step = "run_step uri_ok ua upstream req reads"
  have "?step (start_run s) \<lparr>rn_stage = H2_handshake, rn_send = s, rn_call = None\<rparr>"
    using run_step.handler [of uri_ok ua upstream req "start_run s"] assms(1) by (simp add: start_run_def)
  moreover have "?step \<lparr>rn_stage = H2_handshake, rn_send = s, rn_call = None\<rparr>
      \<lparr>rn_stage = Build_request, rn_send = s, rn_call = None\<rparr>"
    using run_step.handler [of uri_ok ua upstream req "\<lparr>rn_stage = H2_handshake, rn_send = s, rn_call = None\<rparr>"] assms(2)
    by simp
  moreover have "?step \<lparr>rn_stage = Build_request, rn_send = s, rn_call = None\<rparr> (?w (start_call reads))"
    using run_step.handler [of uri_ok ua upstream req "\<lparr>rn_stage = Build_request, rn_send = s, rn_call = None\<rparr>"] assms(3)
    by simp
  moreover have "?step\<^sup>*\<^sup>* (?w (start_call reads)) (?w k)"
    using body_runs [of "start_call reads" k "?w (start_call reads)"] assms(5,6) by (simp add: call_reaches_def)
  moreover have "main_from uri_ok ua upstream req Await_response s = (Ready r, s', fate)"
    using assms(1-4) main_from_step [of uri_ok ua upstream req Dial s] main_from_step [of uri_ok ua upstream req H2_handshake s]
      main_from_step [of uri_ok ua upstream req Build_request s]
    by (simp add: main_from_proxy_main [symmetric])
  note handler_finishes [OF this _ assms(6,7), of reads]
  ultimately show ?thesis
    using assms(6) unfolding run_reaches_def by (simp add: rtranclp.rtrancl_into_rtrancl)
qed

text \<open>Every step of the whole that changes something uses up a stage of the handler or work of the body.\<close>

definition run_work :: "upstream_answers \<Rightarrow> h3_read list \<Rightarrow> run \<Rightarrow> nat" where
  "run_work ua reads w = stages_left ua (rn_stage w) + work (call_of reads w)"

lemma call_steps_work: "call_step\<^sup>*\<^sup>* k k' \<Longrightarrow> work k' \<le> work k"
proof (induction rule: rtranclp_induct)
  case (step k1 k2)
  with call_step_works [of k1 k2] show ?case
    by (cases "k2 = k1") auto
qed simp

lemma call_of_entering:
  assumes "main_next uri_ok ua upstream req st s = Some (st', s')" and "call_fits st c"
  shows "work (call_of reads \<lparr>rn_stage = st', rn_send = s', rn_call = entering reads st' c\<rparr>)
    \<le> work (call_of reads \<lparr>rn_stage = st, rn_send = s, rn_call = c\<rparr>)"
  using call_steps_work [OF call_of_handler [OF assms]] by (simp add: call_of_def)

lemma run_step_works:
  "run_step uri_ok ua upstream req reads w w' \<Longrightarrow> call_fits (rn_stage w) (rn_call w) \<Longrightarrow> w' \<noteq> w \<Longrightarrow>
     run_work ua reads w' < run_work ua reads w"
proof (induction rule: run_step.induct)
  case (handler w st s)
  then show ?case
    using main_next_works [OF handler(1)] call_of_entering [OF handler(1,2), of reads]
    by (cases w) (simp add: run_work_def)
next
  case (pump_and_hyper w k k')
  then have "k' \<noteq> k"
    by auto
  with pump_and_hyper call_step_works [of k k'] show ?case
    by (simp add: run_work_def call_of_def)
qed

section \<open>Properties\<close>

text \<open>
  C8: Running the handler of a call step by step, with its pump, the channel and hyper in between, is the
  same as running it alone. At every moment of every interleaving: if the handler has returned, it has
  returned exactly what \<open>proxy_main\<close> does and written exactly the same to the client; if not, it can go on by
  itself until it has, or waits for the upstream where \<open>proxy_main\<close> does, since nothing it waits for is the pump's. Its pump,
  channel and hyper are a run of \<open>call_step\<close>, in which the call ends well exactly when the handler has
  returned \<open>Ok\<close>; and every step that changes anything uses up some of the work left, so the whole ends.
\<close>

theorem interleaving_does_not_change_a_call:
  assumes "run_reaches uri_ok ua upstream req reads s w"
  shows "(\<forall>r fate. rn_stage w = Returned r fate \<longrightarrow>
        proxy_main uri_ok ua upstream req s = (Ready r, rn_send w, fate))
    \<and> (\<exists>w'. (run_step uri_ok ua upstream req reads)\<^sup>*\<^sup>* w w'
        \<and> proxy_main uri_ok ua upstream req s
            = (fst (answer_at (rn_stage w')), rn_send w', snd (answer_at (rn_stage w'))))
    \<and> call_reaches reads (call_of reads w)
    \<and> (k_main (call_of reads w) = Call_ok \<longleftrightarrow> (\<exists>fate. rn_stage w = Returned (Inr ()) fate))
    \<and> (\<forall>w'. run_step uri_ok ua upstream req reads w w' \<and> w' \<noteq> w \<longrightarrow> run_work ua reads w' < run_work ua reads w)"
proof (intro conjI)
  note inv = run_reaches_inv [OF assms]
  show "\<forall>r fate. rn_stage w = Returned r fate \<longrightarrow> proxy_main uri_ok ua upstream req s = (Ready r, rn_send w, fate)"
    using run_inv_returned [OF inv] by blast
  obtain w' where w': "(run_step uri_ok ua upstream req reads)\<^sup>*\<^sup>* w w'"
    "main_next uri_ok ua upstream req (rn_stage w') (rn_send w') = None"
    using handler_alone by blast
  moreover have "run_inv uri_ok ua upstream req s w'"
    using whole_call.reached [OF w'(1) inv] .
  ultimately show "\<exists>w'. (run_step uri_ok ua upstream req reads)\<^sup>*\<^sup>* w w'
      \<and> proxy_main uri_ok ua upstream req s
          = (fst (answer_at (rn_stage w')), rn_send w', snd (answer_at (rn_stage w')))"
    by (auto simp: run_inv_def main_from_stop)
  show "call_reaches reads (call_of reads w)"
    by (rule run_reaches_call [OF assms])
  show "k_main (call_of reads w) = Call_ok \<longleftrightarrow> (\<exists>fate. rn_stage w = Returned (Inr ()) fate)"
    using call_fits_ok [of "rn_stage w" "rn_call w"] inv
    by (auto simp: run_inv_def call_of_def start_call_def split: option.splits)
  show "\<forall>w'. run_step uri_ok ua upstream req reads w w' \<and> w' \<noteq> w \<longrightarrow> run_work ua reads w' < run_work ua reads w"
    using run_step_works inv by (auto simp: run_inv_def)
qed

text \<open>A whole call: one chunk goes up, one frame and the trailers come down.\<close>

definition sample_request :: proxied where
  "sample_request = \<lparr>pr_method = ''POST'', pr_path = Some ''/S/M'', pr_headers = []\<rparr>"

definition sample_whole_run :: "bytes \<Rightarrow> bytes \<Rightarrow> run" where
  "sample_whole_run up down =
     \<lparr>rn_stage = Returned (Inr ()) Stopped_by_call,
      rn_send = \<lparr>hw_answers = [], hw_written = [Headers 200 [], Data down, Trailers [], Fin]\<rparr>,
      rn_call = Some \<lparr>k_reads = [], k_pump = Pump_done, k_queue = [], k_body = True, k_sent = [up],
        k_ended = True, k_main = Call_ok\<rparr>\<rparr>"

abbreviation sample_answers :: "bytes \<Rightarrow> upstream_answers" where
  "sample_answers down \<equiv> sample_upstream [Frame_data down, Frame_trailers [], Body_end]"

lemma sample_whole_run_reached:
  "run_reaches (\<lambda>_. None) (sample_answers down) ''envoy:8080'' sample_request [Chunk up, End_of_data]
     \<lparr>hw_answers = [], hw_written = []\<rparr> (sample_whole_run up down)"
proof -
  have main: "proxy_main (\<lambda>_. None) (sample_answers down) ''envoy:8080'' sample_request \<lparr>hw_answers = [], hw_written = []\<rparr>
      = (Ready (Inr ()), rn_send (sample_whole_run up down), Stopped_by_call)"
    by (simp add: proxy_main_def build_upstream_def h3_write_def sample_upstream_def sample_request_def
        sample_whole_run_def)
  have up: "build_upstream (\<lambda>_. None) sample_request ''envoy:8080'' =
      Inr \<lparr>pr_method = ''POST'', pr_path = Some ''http://envoy:8080/S/M'', pr_headers = []\<rparr>"
    by (simp add: build_upstream_def sample_request_def)
  from run_to_the_end [OF _ _ up main one_chunk_run [of End_of_data "[]" up, OF disjI1 [OF refl]]]
  show ?thesis
    by (simp add: sample_upstream_def sample_whole_run_def pump_over_def)
qed

theorem interleaving_does_not_change_a_call_witness:
  "proxy_main (\<lambda>_. None) (sample_answers [6]) ''envoy:8080'' sample_request \<lparr>hw_answers = [], hw_written = []\<rparr>
     = (Ready (Inr ()), rn_send (sample_whole_run [5] [6]), Stopped_by_call)
   \<and> call_reaches [Chunk [5], End_of_data] (call_of [Chunk [5], End_of_data] (sample_whole_run [5] [6]))"
  using interleaving_does_not_change_a_call [OF sample_whole_run_reached [of "[6]" "[5]"]]
  by (simp add: sample_whole_run_def)

end
