(* ===== verification/End_To_End.thy ===== *)
theory End_To_End
  imports Ffi Proxy_Run
begin

text \<open>
  The whole way of a call: tasks of an application on the FFI surface (\<open>src/src/ffi.rs\<close>), the framing of
  the client, the gateway's pump and relay (\<open>src/src/proxy.rs\<close>), and the upstream, at any moment of any
  interleaving and whatever has failed so far.

  The lemmas: the data a proxied call has written is the upstream's data from the start
  (\<open>proxy_main_data\<close>); the data the sending tasks have written is the frames of the sends that succeeded
  (\<open>accepted_messages_payload\<close>); and a prefix of a byte stream holds a prefix of its messages.
\<close>

section \<open>What the gateway writes to the client\<close>

lemma relay_body_prefix:
  "relay_body fs s = (r, s') \<Longrightarrow> \<exists>ws. hw_written s' = hw_written s @ ws \<and> prefix ws (relayed fs)"
proof (induction fs s rule: relay_body.induct)
  case (4 data fs s)
  obtain x s1 where w: "h3_write (Data data) s = (x, s1)"
    by fastforce
  with h3_write_result [OF w] 4 show ?case
    by (cases x) fastforce+
next
  case (5 trailers fs s)
  obtain x s1 where w: "h3_write (Trailers trailers) s = (x, s1)"
    by fastforce
  with h3_write_result [OF w] 5 show ?case
    by (cases x) fastforce+
qed auto

lemma concat_map_prefix: "prefix xs ys \<Longrightarrow> prefix (concat (map f xs)) (concat (map f ys))"
  by (auto simp: prefix_def)

text \<open>Whatever goes wrong, and whenever: the data a call writes to its client is the upstream's, from the start.\<close>

definition data_written :: "h3_send \<Rightarrow> bytes" where
  "data_written s = concat (map payload (hw_written s))"

lemma h3_write_no_data:
  "h3_write (Headers status headers) s = (r, s') \<Longrightarrow> data_written s' = data_written s"
  "h3_write Fin s = (r, s') \<Longrightarrow> data_written s' = data_written s"
  by (drule h3_write_result, auto simp: data_written_def split: sum.splits)+

lemma relay_body_data:
  assumes "relay_body fs s = (r, s')"
  shows "\<exists>d. data_written s' = data_written s @ d \<and> prefix d (concat (map payload (relayed fs)))"
  using relay_body_prefix [OF assms] concat_map_prefix [of _ "relayed fs" payload]
  by (auto simp: data_written_def)

lemma proxy_main_data:
  assumes "proxy_main uri_ok ua upstream req s = (r, s', fate)"
  shows "\<exists>d. data_written s' = data_written s @ d \<and> prefix d (concat (map payload (relayed (ua_frames ua))))"
  using assms unfolding proxy_main_def
  by (auto split: option.splits sum.splits poll.splits prod.splits dest!: relay_body_data h3_write_no_data)

section \<open>What the tasks have sent\<close>

text \<open>The messages of the sends that succeeded, in the order in which they returned.\<close>

fun accepted :: "nat \<times> send_op \<times> (transport_error + unit) \<Rightarrow> bytes list" where
  "accepted (t, Op_send m, Inr _) = [m]"
| "accepted (t, Op_send m, Inl e) = []"
| "accepted (t, Op_finish, r) = []"

definition accepted_messages :: "(nat \<times> send_op \<times> (transport_error + unit)) list \<Rightarrow> bytes list" where
  "accepted_messages log = concat (map accepted log)"

lemma payload_written: "concat (map payload (written a)) = concat (map encode_frame (accepted a))"
proof (cases a rule: accepted.cases)
  case (3 t r)
  then show ?thesis
    by (cases r) simp_all
qed simp_all

lemma accepted_messages_payload:
  "concat (map payload (concat (map written log))) = concat (map encode_frame (accepted_messages log))"
  by (induction log) (simp_all add: accepted_messages_def payload_written)

lemma split_frames_prefix:
  assumes "prefix a b"
  shows "prefix (fst (split_frames a)) (fst (split_frames b))"
proof -
  from assms obtain c where "b = a @ c"
    by (auto simp: prefix_def)
  with split_frames_append [of a c] show ?thesis
    by simp
qed

lemma split_frames_of_frames:
  assumes "prefix a (concat (map encode_frame ms))" and "list_all (\<lambda>m. length m < 2 ^ 32) ms"
  shows "prefix (fst (split_frames a)) ms"
  using split_frames_prefix [OF assms(1)] split_frames_encode [OF assms(2), of "[]"]
  by (simp add: split_frames_stop)

section \<open>Properties\<close>

text \<open>
  Tasks and gateway together keep every message whole and in order, here with the two directions of the
  proxied call on their own. Whatever the
  tasks on one call do at once, whoever gives up, however the pump, the channel of the gateway and hyper
  interleave, whatever part of the bytes has arrived on either way and whether or not the proxied call or
  its upstream has failed: the whole messages in what the upstream has been sent are a prefix of the
  messages whose sends succeeded, in the order in which these returned, and the messages the receiving
  tasks took are a prefix of the messages in the upstream's body.
\<close>

theorem concurrent_tasks_through_the_gateway:
  assumes use: "ffi_reaches to_str s r f" "rs_recv_buf r = []" "hw_written (ss_inner s) = []"
    and there: "prefix (concat (leading_chunks reads)) (data_written (ss_inner (fs_send f)))"
    and pump: "call_reaches reads k"
    and main: "proxy_main uri_ok ua upstream req h = (p, h', fate)" "hw_written h = []"
    and home: "prefix (bytes_of (fs_arrived f)) (data_written h')"
    and body: "prefix (concat (map payload (relayed (ua_frames ua)))) (concat (map encode_frame answers))"
    and sizes: "list_all (\<lambda>m. length m < 2 ^ 32) (accepted_messages (fs_send_done f) @ answers)"
  shows "prefix (fst (split_frames (concat (k_sent k)))) (accepted_messages (fs_send_done f))
    \<and> prefix (messages_taken f) answers"
proof
  have "data_written (ss_inner (fs_send f)) = concat (map encode_frame (accepted_messages (fs_send_done f)))"
    using ffi_reaches_inv [OF use(1)] use(3) by (simp add: data_written_def ffi_inv_def accepted_messages_payload)
  moreover have "prefix (k_sent k) (leading_chunks reads)"
    using call_reaches_inv [OF pump] prefix_drop_queue [of "k_sent k"] by (auto simp: call_inv_def)
  then have "prefix (concat (k_sent k)) (concat (leading_chunks reads))"
    using concat_map_prefix [of _ _ id] by simp
  ultimately show "prefix (fst (split_frames (concat (k_sent k)))) (accepted_messages (fs_send_done f))"
    using there sizes split_frames_of_frames by (metis list_all_append prefix_order.trans)
  obtain d where "data_written h' = d" "prefix d (concat (map payload (relayed (ua_frames ua))))"
    using proxy_main_data [OF main(1)] main(2) by (auto simp: data_written_def)
  then have "prefix (bytes_of (fs_arrived f)) (concat (map encode_frame answers))"
    using home body by (metis prefix_order.trans)
  then have "prefix (fst (split_frames (bytes_of (fs_arrived f)))) answers"
    using sizes split_frames_of_frames by simp
  moreover have "prefix (messages_taken f) (fst (split_frames (bytes_of (fs_arrived f))))"
    using ffi_reaches_shared(2) [OF use(1)] use(2) by (simp add: shared_ok_def shared_of_def)
  ultimately show "prefix (messages_taken f) answers"
    by (metis prefix_order.trans)
qed

text \<open>A call in which one task has received \<open>[7]\<close> and another has sent \<open>[5]\<close>.\<close>

definition sample_use :: ffi_stream where
  "sample_use = (sample_ffi [])\<lparr>fs_recv := sample_half [], fs_recv_done := [(1, Got_message (Inr (Some [7])))],
     fs_send := \<lparr>ss_inner = \<lparr>hw_answers = [], hw_written = [Data (encode_frame [5])]\<rparr>\<rparr>,
     fs_send_done := [(2, Op_send [5], Inr ())]\<rparr>"

lemma sample_use_run: "ffi_reaches to_str sample_send (sample_half [Chunk (encode_frame [7])]) sample_use"
proof -
  let ?f = "(sample_ffi [])\<lparr>fs_recv := sample_half [], fs_recv_done := [(1, Got_message (Inr (Some [7])))]\<rparr>"
  have "ffi_step to_str ?f (?f\<lparr>fs_send_queue := [(2, Op_send [5])]\<rparr>)"
    using ffi_step.start_send [of to_str ?f 2 "Op_send [5]"] by (simp add: sample_ffi_def fresh_ffi_stream_def)
  moreover have "run_send_op (Op_send [5]) sample_send
      = (Inr (), \<lparr>ss_inner = \<lparr>hw_answers = [], hw_written = [Data (encode_frame [5])]\<rparr>\<rparr>)"
    by (simp add: run_send_op_def ffi_send_message_def half_send_message_def sample_send_def h3_write_def
        with_context_def on_rt_def map_err_def)
  then have "ffi_step to_str (?f\<lparr>fs_send_queue := [(2, Op_send [5])]\<rparr>) sample_use"
    using ffi_step.send_runs [of "?f\<lparr>fs_send_queue := [(2, Op_send [5])]\<rparr>" 2 "Op_send [5]" "[]"]
    by (simp add: sample_use_def sample_ffi_def fresh_ffi_stream_def)
  ultimately show ?thesis
    using sample_ffi_run [of to_str] unfolding ffi_reaches_def by simp
qed

text \<open>
  C7: Tasks and gateway together keep every message whole and in order, at every moment. Whatever the
  tasks on one call do at once, whoever gives up, however the handler of the gateway, its pump, the
  channel and hyper interleave, whatever part of the bytes has arrived on either way and whatever has
  failed: the whole messages in what the upstream has been sent are a prefix of the
  messages whose sends succeeded, in the order in which these returned, and the messages the receiving
  tasks took are a prefix of the messages in the upstream's body.
\<close>

theorem concurrent_tasks_and_a_whole_call:
  assumes use: "ffi_reaches to_str s r f" "rs_recv_buf r = []" "hw_written (ss_inner s) = []"
    and there: "prefix (concat (leading_chunks reads)) (data_written (ss_inner (fs_send f)))"
    and run: "run_reaches uri_ok ua upstream req reads h w" "hw_written h = []"
    and home: "prefix (bytes_of (fs_arrived f)) (data_written (rn_send w))"
    and body: "prefix (concat (map payload (relayed (ua_frames ua)))) (concat (map encode_frame answers))"
    and sizes: "list_all (\<lambda>m. length m < 2 ^ 32) (accepted_messages (fs_send_done f) @ answers)"
  shows "prefix (fst (split_frames (concat (k_sent (call_of reads w))))) (accepted_messages (fs_send_done f))
    \<and> prefix (messages_taken f) answers"
proof -
  obtain p h' fate where main: "proxy_main uri_ok ua upstream req h = (p, h', fate)"
    by (rule prod_cases3)
  have "prefix (data_written (rn_send w)) (data_written h')"
    using run_inv_writes [OF run_reaches_inv [OF run(1)] main] concat_map_prefix by (simp add: data_written_def)
  with home have "prefix (bytes_of (fs_arrived f)) (data_written h')"
    by (rule prefix_order.trans)
  from concurrent_tasks_through_the_gateway [OF use there run_reaches_call [OF run(1)] main run(2) this body sizes]
  show ?thesis .
qed

theorem concurrent_tasks_through_the_gateway_witness:
  "prefix (fst (split_frames (encode_frame [5]))) (accepted_messages (fs_send_done sample_use))
   \<and> messages_taken sample_use = [[7]] \<and> prefix (messages_taken sample_use) [[7]]"
proof -
  let ?ua = "sample_upstream [Frame_data (encode_frame [7])]"
  let ?req = "\<lparr>pr_method = ''POST'', pr_path = Some ''/S/M'', pr_headers = []\<rparr>"
  let ?h = "\<lparr>hw_answers = [], hw_written = []\<rparr>"
  let ?h' = "\<lparr>hw_answers = [], hw_written = [Headers 200 [], Data (encode_frame [7])]\<rparr>"
  have main: "proxy_main (\<lambda>_. None) ?ua ''envoy:8080'' ?req ?h = (Pending, ?h', Left_running)"
    by (simp add: proxy_main_def build_upstream_def h3_write_def sample_upstream_def)
  have there: "prefix (concat (leading_chunks [Chunk (encode_frame [5]), End_of_data]))
      (data_written (ss_inner (fs_send sample_use)))"
    by (simp add: data_written_def sample_use_def)
  have home: "prefix (bytes_of (fs_arrived sample_use)) (data_written ?h')"
    by (simp add: data_written_def sample_use_def sample_ffi_def fresh_ffi_stream_def sample_half_def sample_recv_def)
  have rest: "rs_recv_buf (sample_half [Chunk (encode_frame [7])]) = []" "hw_written (ss_inner sample_send) = []"
    "messages_taken sample_use = [[7]]"
    "list_all (\<lambda>m. length m < 2 ^ 32) (accepted_messages (fs_send_done sample_use) @ [[7]])"
    "prefix (concat (map payload (relayed (ua_frames ?ua)))) (concat (map encode_frame [[7]]))"
    by (simp_all add: sample_half_def sample_send_def messages_taken_def messages_in_def map_filter_simps
        sample_use_def accepted_messages_def sample_upstream_def)
  show ?thesis
    using concurrent_tasks_through_the_gateway [OF sample_use_run rest(1,2) there
        one_chunk_run [of End_of_data "[]" "encode_frame [5]", OF disjI1 [OF refl]] main _ home rest(5,4)] rest(3)
    by simp
qed

theorem concurrent_tasks_and_a_whole_call_witness:
  "prefix (fst (split_frames (encode_frame [5]))) (accepted_messages (fs_send_done sample_use))
   \<and> prefix (messages_taken sample_use) [[7]] \<and> messages_taken sample_use = [[7]]"
proof -
  let ?w = "sample_whole_run (encode_frame [5]) (encode_frame [7])"
  let ?h = "\<lparr>hw_answers = [], hw_written = []\<rparr>"
  have there: "prefix (concat (leading_chunks [Chunk (encode_frame [5]), End_of_data]))
      (data_written (ss_inner (fs_send sample_use)))"
    by (simp add: data_written_def sample_use_def)
  have home: "prefix (bytes_of (fs_arrived sample_use)) (data_written (rn_send ?w))"
    by (simp add: data_written_def sample_use_def sample_ffi_def fresh_ffi_stream_def sample_half_def sample_recv_def
        sample_whole_run_def)
  have rest: "rs_recv_buf (sample_half [Chunk (encode_frame [7])]) = []" "hw_written (ss_inner sample_send) = []"
    "hw_written ?h = []" "messages_taken sample_use = [[7]]"
    "list_all (\<lambda>m. length m < 2 ^ 32) (accepted_messages (fs_send_done sample_use) @ [[7]])"
    "prefix (concat (map payload (relayed (ua_frames (sample_answers (encode_frame [7])))))) (concat (map encode_frame [[7]]))"
    by (simp_all add: sample_half_def sample_send_def messages_taken_def messages_in_def map_filter_simps
        sample_use_def accepted_messages_def sample_upstream_def)
  show ?thesis
    using concurrent_tasks_and_a_whole_call [OF sample_use_run rest(1,2) there sample_whole_run_reached rest(3) home
        rest(6,5)] rest(4)
    by (simp add: call_of_def sample_whole_run_def)
qed

end
