(* ===== verification/Connect_Errors.thy ===== *)
theory Connect_Errors
  imports Ffi
begin

text \<open>
  What an application is told when connecting fails (\<open>connect\<close>, \<open>dial\<close> and \<open>handshake\<close> in
  \<open>src/src/client.rs\<close>, handed on by \<open>src/src/ffi.rs\<close>). \<open>connect_failure\<close> is the error of a connect read
  off the answers of the network, stage by stage, without running it.

  The lemmas: \<open>connect_via_failure\<close>, that the run gives this error or the client; and that not every
  failed attempt is reported with its address (\<open>an_attempt_may_not_name_its_address\<close>).
\<close>

definition connect_failure :: "(anyhow + 'c) \<Rightarrow> ('c \<Rightarrow> 'c opener) \<Rightarrow> net \<Rightarrow> string \<Rightarrow> anyhow option" where
  "connect_failure config opener net host_port =
     (case config of
        Inl e \<Rightarrow> Some e
      | Inr cfg \<Rightarrow>
     (case fst (net_lookup net RESOLVE_TIMEOUT) of
        Lookup_elapsed \<Rightarrow> Some [''DNS timed out for '' @ host_port, ''deadline has elapsed'']
      | Lookup_failed e \<Rightarrow> Some ((''resolve '' @ host_port) # e)
      | Lookup_found addrs \<Rightarrow>
          (let tried = take 4 (dial_candidates addrs); budget = HANDSHAKE_TIMEOUT div length tried in
           if tried = [] then Some [''no address for '' @ host_port]
           else if list_ex (attempt_ok net (opener cfg) budget) tried then None
           else Some [''QUIC handshake failed ('' @
             join_with ''; '' (map (attempt_text net (opener cfg) budget) tried) @ '')''])))"

lemma planned_attempts:
  assumes "xs \<noteq> []"
  shows "take (min (max (length xs) 1) 4) xs = take 4 xs"
    and "min (max (length xs) 1) 4 = length (take 4 xs)"
  using assms by (cases "length xs \<le> 4"; cases xs; simp)+

lemma dropWhile_none: "dropWhile (\<lambda>x. \<not> P x) xs = [] \<longleftrightarrow> \<not> list_ex P xs"
  by (auto simp: list_ex_iff dropWhile_eq_Nil_conv)

lemma dial_loop_failure:
  assumes "tried \<noteq> []"
  shows "fst (dial_loop net open server_name budget tried [] p) =
    (if list_ex (attempt_ok net open budget) tried then Inr (length (p_clients p))
     else Inl [''QUIC handshake failed ('' @ join_with ''; '' (map (attempt_text net open budget) tried) @ '')''])"
proof (cases "dropWhile (\<lambda>a. \<not> attempt_ok net open budget a) tried")
  case Nil
  then have "\<not> list_ex (attempt_ok net open budget) tried"
    by (simp only: dropWhile_none) simp
  with assms show ?thesis
    unfolding dial_loop_eq Let_def Nil by simp
next
  case (Cons a rest)
  then have "list_ex (attempt_ok net open budget) tried"
    using dropWhile_none [of "attempt_ok net open budget" tried] by simp
  then show ?thesis
    unfolding dial_loop_eq Let_def Cons by simp
qed

lemma connect_via_failure:
  "\<exists>r p'. connect_via config opener net host_port server_name p = Ret (r, p')
     \<and> r = (case connect_failure config opener net host_port of
              Some e \<Rightarrow> Inl e | None \<Rightarrow> Inr (length (p_clients p)))"
proof (cases config)
  case (Inr cfg)
  obtain found t where net: "net_lookup net RESOLVE_TIMEOUT = (found, t)"
    by fastforce
  show ?thesis
  proof (cases found)
    case (Lookup_found addrs)
    show ?thesis
    proof (cases "addrs = []")
      case False
      let ?c = "dial_candidates addrs"
      have c: "?c \<noteq> []" "take 4 ?c \<noteq> []"
        using False by simp_all
      let ?budget = "HANDSHAKE_TIMEOUT div length (take 4 ?c)"
      obtain r p' where run: "dial_loop net (opener cfg) server_name ?budget (take 4 ?c) [] (spend t p) = (r, p')"
        by fastforce
      have "p_clients (spend t p) = p_clients p"
        by (simp add: spend_def)
      with run dial_loop_failure [OF c(2), of net "opener cfg" server_name ?budget "spend t p"]
      have r: "r = (if list_ex (attempt_ok net (opener cfg) ?budget) (take 4 ?c) then Inr (length (p_clients p))
          else Inl [''QUIC handshake failed ('' @
            join_with ''; '' (map (attempt_text net (opener cfg) ?budget) (take 4 ?c)) @ '')''])"
        by simp
      have "dial net (opener cfg) server_name ?c (spend t p) = Ret (r, p')"
        unfolding dial_eq Let_def planned_attempts(1) [OF c(1)] unfolding planned_attempts(2) [OF c(1)] run ..
      with c Inr Lookup_found net show ?thesis
        by (simp add: connect_via_def resolve_all_def connect_failure_def Let_def r del: length_take take_eq_Nil)
    qed (use Inr Lookup_found net in \<open>simp add: connect_via_def resolve_all_def connect_failure_def Let_def\<close>)
  qed (use Inr net in \<open>simp_all add: connect_via_def resolve_all_def connect_failure_def context_of_def elapsed_error_def Let_def\<close>)
qed (simp add: connect_via_def connect_failure_def)

section \<open>Properties\<close>

text \<open>
  An attempt that fails when quinn starts to connect, or in the set-up of h3, is reported without its
  address: the text is the same whatever the address is. When several addresses fail that way, the error of the dial
  does not say which of them did.
\<close>

lemma an_attempt_may_not_name_its_address:
  assumes "open addr = Inr er"
    and "net_start net addr \<noteq> None \<or> fst (net_handshake net addr budget) = Handshake_done"
  shows "attempt_text (net\<lparr>net_show_addr := shown\<rparr>) open budget addr = attempt_text net open budget addr"
  using assms by (cases "net_start net addr") (auto simp: attempt_text_def handshake_error_def)

text \<open>
  C36: An application is told what failed, and by all of it. Connecting at the FFI, plain or obfuscated,
  returns the new client exactly when the answers of the network hold no failure, and otherwise one
  text that names the first stage that failed with its causes: the configuration, the resolver's
  deadline or error, a name without addresses, or, for each of the at most four addresses that were
  dialled, in order, what happened to it. This names the address where the bind, the handshake or its deadline
  failed; where quinn could not start to connect or h3 could not be set up, it is the error
  alone. The text never is that of a task that panicked.
\<close>

theorem the_application_is_told_what_failed:
  "fst (channel_connect panicked q ck net host_port server_name cert p) =
     (case connect_failure (client_config q ck (trust_bundle cert)) (open_plain net) net host_port of
        Some e \<Rightarrow> Inl (Transport (show_chain e)) | None \<Rightarrow> Inr (length (p_clients p)))
   \<and> fst (channel_connect_obfuscated panicked q ck net host_port server_name cert psk p) =
     (case connect_failure (client_config_obf q ck (trust_bundle cert)) (open_obfuscated net (salamander_new psk))
            net host_port of
        Some e \<Rightarrow> Inl (Transport (show_chain e)) | None \<Rightarrow> Inr (length (p_clients p)))
   \<and> attempt_text net open budget addr =
     (case (open addr, net_start net addr, fst (net_handshake net addr budget)) of
        (Inl e, _, _) \<Rightarrow> net_show_addr net addr @ '': '' @ show_chain e
      | (Inr er, Some e, _) \<Rightarrow> show_chain (''start connect'' # e)
      | (Inr er, None, Handshake_elapsed) \<Rightarrow>
          ''QUIC handshake timed out to '' @ net_show_addr net addr @ '': deadline has elapsed''
      | (Inr er, None, Handshake_failed e) \<Rightarrow>
          show_chain ((''QUIC handshake failed to '' @ net_show_addr net addr) # e)
      | (Inr er, None, Handshake_done) \<Rightarrow> show_chain (the (fst (net_h3 net addr))))"
proof -
  have told: "fst (join_client panicked (connect_via config opener net host_port server_name p) p) =
      (case connect_failure config opener net host_port of
         Some e \<Rightarrow> Inl (Transport (show_chain e)) | None \<Rightarrow> Inr (length (p_clients p)))" for config opener
    using connect_via_failure [of config opener net host_port server_name p]
    by (auto simp: join_client_def on_rt_def map_err_def err_def split: option.splits)
  show ?thesis
    unfolding channel_connect_def channel_connect_obfuscated_def connect_forms
    by (intro conjI told) (simp add: attempt_text_def handshake_error_def context_of_def elapsed_error_def
        show_chain_def split: sum.split option.split handshake_answer.split)
qed

text \<open>A name whose two addresses both fail, each in its own way.\<close>

theorem the_application_is_told_what_failed_witness:
  "fst (channel_connect ''panic'' sample_quinn sample_checks
      ((sample_net 0)\<lparr>net_handshake := (\<lambda>a b. if is_ipv4 a then (Handshake_failed [''refused''], 1) else (Handshake_elapsed, b))\<rparr>)
      ''h:443'' ''h'' [7] no_proc)
   = Inl (Transport (''QUIC handshake failed (QUIC handshake timed out to v6: deadline has elapsed; ''
       @ ''QUIC handshake failed to v4: refused)''))"
  unfolding the_application_is_told_what_failed [THEN conjunct1]
  by (simp add: connect_failure_def sample_run_simps sample_net_def attempt_defs handshake_error_def
      handshake_ok_def show_chain_def context_of_def elapsed_error_def)

end
