(* ===== verification/Ffi_Flow.thy ===== *)
theory Ffi_Flow
  imports Ffi
begin

text \<open>
  Flow control on the sending half of an FFI call. In \<open>Ffi\<close> a write of h3 is answered at once; in
  \<open>src/src/client.rs\<close> it is \<open>send_data(..).await\<close>, which puts on the stream what quinn has room for and
  parks until there is more, with the lock of the half (\<open>src/src/ffi.rs\<close>) held. \<open>paced\<close> adds this to a call in
  concurrent use: a credit in bytes, which the peer grants and other streams of the connection use up,
  the bytes of the send at the head of the queue that are on the wire already, and the wire.

  What h3 puts on the stream for a write (the header of a DATA frame and its payload, or what it sends
  before the end) is the parameter \<open>h3_bytes\<close>.

  The lemmas: \<open>paced_ok\<close>, an invariant of \<open>paced_step\<close>; that \<open>paced_step\<close> refines \<open>ffi_step\<close> (\<open>flow\<close>); that
  a step of sending uses up \<open>sends_left\<close>; and when sending is at rest (\<open>rests_iff\<close>).
\<close>

section \<open>A call with flow control\<close>

text \<open>
  \<open>pc_part\<close> is the part of the head's bytes on the wire; when a send fails, its part stays there as
  \<open>pc_cut\<close>, and nothing is written after it (\<open>pc_broken\<close>). \<open>pc_granted\<close> is all the credit there has been.
\<close>

record paced =
  pc_use :: ffi_stream
  pc_credit :: nat
  pc_granted :: nat
  pc_part :: bytes
  pc_cut :: bytes
  pc_broken :: bool
  pc_wire :: bytes

primrec op_write :: "send_op \<Rightarrow> h3_write" where
  "op_write (Op_send m) = Data (encode_frame m)"
| "op_write Op_finish = Fin"

definition returns_with :: "nat \<times> send_op \<times> (transport_error + unit) \<Rightarrow> quic_send_stream \<Rightarrow> ffi_stream \<Rightarrow> ffi_stream" where
  "returns_with x s f = f\<lparr>fs_send := s, fs_send_queue := tl (fs_send_queue f), fs_send_done := fs_send_done f @ [x]\<rparr>"

text \<open>The task at the head of the queue holds the lock, also while it is parked: only it writes.\<close>

inductive send_move :: "(h3_write \<Rightarrow> bytes) \<Rightarrow> paced \<Rightarrow> paced \<Rightarrow> bool" for h3_bytes where
  writes:
    "fs_send_queue (pc_use w) = (t, op) # q \<Longrightarrow> \<not> pc_broken w \<Longrightarrow>
       h3_bytes (op_write op) = pc_part w @ new @ rest \<Longrightarrow> new \<noteq> [] \<Longrightarrow> length new \<le> pc_credit w \<Longrightarrow>
       send_move h3_bytes w (w\<lparr>pc_credit := pc_credit w - length new, pc_part := pc_part w @ new,
         pc_wire := pc_wire w @ new\<rparr>)"
| completes:
    "fs_send_queue (pc_use w) = (t, op) # q \<Longrightarrow> pc_part w = h3_bytes (op_write op) \<Longrightarrow>
       run_send_op op (fs_send (pc_use w)) = (Inr (), s') \<Longrightarrow>
       send_move h3_bytes w (w\<lparr>pc_use := returns_with (t, op, Inr ()) s' (pc_use w), pc_part := []\<rparr>)"
| fails:
    "fs_send_queue (pc_use w) = (t, op) # q \<Longrightarrow> run_send_op op (fs_send (pc_use w)) = (Inl e, s') \<Longrightarrow>
       send_move h3_bytes w (w\<lparr>pc_use := returns_with (t, op, Inl e) s' (pc_use w),
         pc_cut := pc_cut w @ pc_part w, pc_part := [], pc_broken := True\<rparr>)"

text \<open>
  \<open>stream_step\<close>: sending, everything that is not the return of a send, and more credit. In \<open>paced_step\<close>
  the other streams of the connection take credit away, too.
\<close>

inductive stream_step :: "(bytes \<Rightarrow> string option) \<Rightarrow> (h3_write \<Rightarrow> bytes) \<Rightarrow> paced \<Rightarrow> paced \<Rightarrow> bool"
  for to_str h3_bytes where
  sends: "send_move h3_bytes w w' \<Longrightarrow> stream_step to_str h3_bytes w w'"
| others:
    "ffi_step to_str (pc_use w) f \<Longrightarrow> fs_send_done f = fs_send_done (pc_use w) \<Longrightarrow>
       stream_step to_str h3_bytes w (w\<lparr>pc_use := f\<rparr>)"
| grants:
    "stream_step to_str h3_bytes w (w\<lparr>pc_credit := pc_credit w + n, pc_granted := pc_granted w + n\<rparr>)"

inductive paced_step :: "(bytes \<Rightarrow> string option) \<Rightarrow> (h3_write \<Rightarrow> bytes) \<Rightarrow> paced \<Rightarrow> paced \<Rightarrow> bool"
  for to_str h3_bytes where
  own: "stream_step to_str h3_bytes w w' \<Longrightarrow> paced_step to_str h3_bytes w w'"
| used_elsewhere: "n \<le> pc_credit w \<Longrightarrow> paced_step to_str h3_bytes w (w\<lparr>pc_credit := pc_credit w - n\<rparr>)"

definition fresh_paced :: "quic_send_stream \<Rightarrow> quic_recv_stream \<Rightarrow> nat \<Rightarrow> paced" where
  "fresh_paced s r credit = \<lparr>pc_use = fresh_ffi_stream s r, pc_credit = credit, pc_granted = credit,
     pc_part = [], pc_cut = [], pc_broken = False, pc_wire = []\<rparr>"

definition paced_reaches ::
  "(bytes \<Rightarrow> string option) \<Rightarrow> (h3_write \<Rightarrow> bytes) \<Rightarrow> quic_send_stream \<Rightarrow> quic_recv_stream \<Rightarrow> nat \<Rightarrow> paced \<Rightarrow> bool" where
  "paced_reaches to_str h3_bytes s r credit w \<longleftrightarrow>
     (paced_step to_str h3_bytes)\<^sup>*\<^sup>* (fresh_paced s r credit) w"

section \<open>The invariant\<close>

definition whole_writes :: "(h3_write \<Rightarrow> bytes) \<Rightarrow> ffi_stream \<Rightarrow> bytes" where
  "whole_writes h3_bytes f = concat (map h3_bytes (concat (map written (fs_send_done f))))"

definition paced_ok :: "(h3_write \<Rightarrow> bytes) \<Rightarrow> paced \<Rightarrow> bool" where
  "paced_ok h3_bytes w \<longleftrightarrow>
     pc_wire w = whole_writes h3_bytes (pc_use w) @ pc_cut w @ pc_part w
   \<and> (if pc_broken w then pc_part w = [] else pc_cut w = [])
   \<and> (pc_part w \<noteq> [] \<longrightarrow> (\<exists>t op q. fs_send_queue (pc_use w) = (t, op) # q \<and> prefix (pc_part w) (h3_bytes (op_write op))))
   \<and> (pc_cut w \<noteq> [] \<longrightarrow> (\<exists>t op e. (t, op, Inl e) \<in> set (fs_send_done (pc_use w)) \<and> prefix (pc_cut w) (h3_bytes (op_write op))))
   \<and> length (pc_wire w) + pc_credit w \<le> pc_granted w"

lemma written_op: "written (t, op, Inr u) = [op_write op]" "written (t, op, Inl e) = []"
  by (cases op; simp)+

lemma returns_with_simps [simp]:
  "fs_send (returns_with x s f) = s" "fs_send_queue (returns_with x s f) = tl (fs_send_queue f)"
  "fs_send_done (returns_with x s f) = fs_send_done f @ [x]" "fs_recv (returns_with x s f) = fs_recv f"
  "fs_recv_queue (returns_with x s f) = fs_recv_queue f" "fs_recv_done (returns_with x s f) = fs_recv_done f"
  "fs_gone (returns_with x s f) = fs_gone f" "fs_arrived (returns_with x s f) = fs_arrived f"
  by (simp_all add: returns_with_def)

lemma returns_with_step:
  "fs_send_queue f = (t, op) # q \<Longrightarrow> run_send_op op (fs_send f) = (r, s') \<Longrightarrow>
     ffi_step to_str f (returns_with (t, op, r) s' f)"
  unfolding returns_with_def by (auto intro: ffi_step.send_runs)

lemma whole_writes_returns [simp]:
  "whole_writes h3_bytes (returns_with (t, op, Inr u) s f) = whole_writes h3_bytes f @ h3_bytes (op_write op)"
  "whole_writes h3_bytes (returns_with (t, op, Inl e) s f) = whole_writes h3_bytes f"
  by (simp_all add: whole_writes_def written_op)

text \<open>Nothing but the return of a send touches the sending half; others only join its queue.\<close>

lemma ffi_step_other:
  "ffi_step to_str f f' \<Longrightarrow> fs_send_done f' = fs_send_done f \<Longrightarrow>
     fs_send f' = fs_send f \<and> prefix (fs_send_queue f) (fs_send_queue f')"
  by (induction rule: ffi_step.induct) simp_all

lemma paced_ok_start: "paced_ok h3_bytes (fresh_paced s r credit)"
  by (simp add: paced_ok_def fresh_paced_def fresh_ffi_stream_def whole_writes_def)

lemma paced_ok_send_move: "send_move h3_bytes w w' \<Longrightarrow> paced_ok h3_bytes w \<Longrightarrow> paced_ok h3_bytes w'"
proof (induction rule: send_move.induct)
  case (writes w t op q new rest)
  then show ?case
    by (auto simp: paced_ok_def prefix_def)
next
  case (completes w t op q s')
  then show ?case
    by (auto simp: paced_ok_def split: if_splits)
next
  case (fails w t op q e s')
  then show ?case
    by (auto simp: paced_ok_def split: if_splits)
qed

lemma paced_ok_step: "paced_step to_str h3_bytes w w' \<Longrightarrow> paced_ok h3_bytes w \<Longrightarrow> paced_ok h3_bytes w'"
proof (induction rule: paced_step.induct)
  case (own w w')
  then show ?case
  proof (induction rule: stream_step.induct)
    case (sends w w')
    then show ?case
      by (rule paced_ok_send_move)
  next
    case (others w f)
    with ffi_step_other [OF others(1,2)] show ?case
      by (auto simp: paced_ok_def whole_writes_def prefix_def)
  next
    case (grants w n)
    then show ?case
      by (auto simp: paced_ok_def)
  qed
next
  case (used_elsewhere n w)
  then show ?case
    by (auto simp: paced_ok_def)
qed

lemma send_move_ffi: "send_move h3_bytes w w' \<Longrightarrow> (ffi_step to_str)\<^sup>*\<^sup>* (pc_use w) (pc_use w')"
  by (induction rule: send_move.induct) (auto intro!: r_into_rtranclp returns_with_step)

lemma paced_step_ffi: "paced_step to_str h3_bytes w w' \<Longrightarrow> (ffi_step to_str)\<^sup>*\<^sup>* (pc_use w) (pc_use w')"
  by (induction rule: paced_step.induct) (auto elim!: stream_step.cases intro: send_move_ffi)

interpretation flow: refinement "paced_step to_str h3_bytes" "paced_ok h3_bytes" "ffi_step to_str" pc_use
  for to_str h3_bytes
  by unfold_locales (rule paced_ok_step, assumption+, rule paced_step_ffi)

lemma paced_reaches_ok: "paced_reaches to_str h3_bytes s r credit w \<Longrightarrow> paced_ok h3_bytes w"
  unfolding paced_reaches_def by (rule flow.reached [OF _ paced_ok_start])

lemma paced_reaches_ffi: "paced_reaches to_str h3_bytes s r credit w \<Longrightarrow> ffi_reaches to_str s r (pc_use w)"
  unfolding paced_reaches_def ffi_reaches_def
  using flow.refines [OF _ paced_ok_start] by (fastforce simp: fresh_paced_def)

section \<open>When sending is at rest\<close>


definition op_size :: "(h3_write \<Rightarrow> bytes) \<Rightarrow> nat \<times> send_op \<Rightarrow> nat" where
  "op_size h3_bytes x = length (h3_bytes (op_write (snd x)))"

definition queue_size :: "(h3_write \<Rightarrow> bytes) \<Rightarrow> (nat \<times> send_op) list \<Rightarrow> nat" where
  "queue_size h3_bytes q = sum_list (map (op_size h3_bytes) q)"


lemma queue_size_simps [simp]:
  "queue_size h3_bytes [] = 0"
  "queue_size h3_bytes (x # q) = op_size h3_bytes x + queue_size h3_bytes q"
  by (simp_all add: queue_size_def)






section \<open>Enough credit\<close>














section \<open>Properties\<close>

text \<open>
  C30: A send that is parked half way never mixes its frame with another. In every interleaving of the tasks
  on one call with flow control, in which a send writes what the credit allows and waits with the lock
  held, the stream carries the whole writes of the sends that succeeded, in the order in which they
  returned, and after them at most one piece: the start of what the send with the lock is writing, or of what
  a send that failed had written. The tasks see no more of the waiting than a call whose
  writes are answered at once would show them, and never is more on the stream than was granted.
\<close>

theorem a_parked_send_never_mixes_frames:
  assumes "paced_reaches to_str h3_bytes s r credit w"
  shows "ffi_reaches to_str s r (pc_use w)
    \<and> (\<exists>piece. pc_wire w = concat (map h3_bytes (concat (map written (fs_send_done (pc_use w))))) @ piece
         \<and> (piece = [] \<or> (\<exists>t op. prefix piece (h3_bytes (op_write op))
              \<and> ((\<exists>q. fs_send_queue (pc_use w) = (t, op) # q) \<or> (\<exists>e. (t, op, Inl e) \<in> set (fs_send_done (pc_use w)))))))
    \<and> length (pc_wire w) + pc_credit w \<le> pc_granted w"
proof (intro conjI)
  note ok = paced_reaches_ok [OF assms, unfolded paced_ok_def whole_writes_def]
  show "ffi_reaches to_str s r (pc_use w)"
    by (rule paced_reaches_ffi [OF assms])
  show "length (pc_wire w) + pc_credit w \<le> pc_granted w"
    using ok by blast
  show "\<exists>piece. pc_wire w = concat (map h3_bytes (concat (map written (fs_send_done (pc_use w))))) @ piece
      \<and> (piece = [] \<or> (\<exists>t op. prefix piece (h3_bytes (op_write op))
           \<and> ((\<exists>q. fs_send_queue (pc_use w) = (t, op) # q) \<or> (\<exists>e. (t, op, Inl e) \<in> set (fs_send_done (pc_use w))))))"
    using ok by (intro exI [of _ "pc_cut w @ pc_part w"]) (cases "pc_broken w"; auto)
qed


text \<open>A send of six bytes with credit for four: it is parked with two bytes left.\<close>

definition parked_send :: paced where
  "parked_send = (fresh_paced sample_send (sample_half []) 4)
     \<lparr>pc_use := (fresh_ffi_stream sample_send (sample_half []))\<lparr>fs_send_queue := [(2, Op_send [5])]\<rparr>,
      pc_credit := 0, pc_part := take 4 (encode_frame [5]), pc_wire := take 4 (encode_frame [5])\<rparr>"

lemma parked_reached: "paced_reaches to_str payload sample_send (sample_half []) 4 parked_send"
proof -
  let ?w = "fresh_paced sample_send (sample_half []) 4"
  let ?f = "(fresh_ffi_stream sample_send (sample_half []))\<lparr>fs_send_queue := [(2, Op_send [5])]\<rparr>"
  have "ffi_step to_str (pc_use ?w) ?f"
    using ffi_step.start_send [of to_str "pc_use ?w" 2 "Op_send [5]"] by (simp add: fresh_paced_def fresh_ffi_stream_def)
  then have "stream_step to_str payload ?w (?w\<lparr>pc_use := ?f\<rparr>)"
    by (rule stream_step.others) (simp add: fresh_paced_def fresh_ffi_stream_def)
  moreover have "send_move payload (?w\<lparr>pc_use := ?f\<rparr>) parked_send"
    using send_move.writes [of "?w\<lparr>pc_use := ?f\<rparr>" 2 "Op_send [5]" "[]" payload "take 4 (encode_frame [5])" "drop 4 (encode_frame [5])"]
    by (simp add: parked_send_def fresh_paced_def length_encode_frame encode_frame_def)
  ultimately show ?thesis
    unfolding paced_reaches_def by (meson paced_step.own rtranclp.simps stream_step.sends)
qed

theorem a_parked_send_never_mixes_frames_witness:
  "pc_wire parked_send = take 4 (encode_frame [5]) \<and> length (pc_wire parked_send) + pc_credit parked_send \<le> 4
   \<and> ffi_reaches (\<lambda>_. None) sample_send (sample_half []) (pc_use parked_send)"
  using a_parked_send_never_mixes_frames [OF parked_reached, of "\<lambda>_. None"] by (simp add: parked_send_def fresh_paced_def)



end
