(* ===== verification/Spec2Isabelle.thy ===== *)
theory Spec2Isabelle
  imports Udpcheck Ffi_Probe Echo_Probe Smoke End_To_End Connect_Errors Ffi_Flow
begin

text \<open>
  construct-transport: a gRPC transport over HTTP/3 and QUIC, in Rust. The sources are under
  \<open>src/src\<close>; file names below are relative to it.

  The program. A client (\<open>client.rs\<close>) resolves a host, dials its addresses one after the other,
  speaks HTTP/3 on the first that answers and opens one bidirectional gRPC call per stream, which may
  be split into a sending and a receiving half. It can move its connection onto a fresh UDP socket
  (\<open>rebind\<close>) and tears it down once, whether by \<open>close\<close> or by \<open>Drop\<close>. The UDP socket is always the
  one of \<open>spin_free_socket.rs\<close>, which ends an endpoint poll on a real error; with a pre-shared key it
  is wrapped by \<open>obf_socket.rs\<close>, which runs Salamander (\<open>salamander.rs\<close>) over every datagram. Messages
  travel in the frames of \<open>grpc.rs\<close>; certificates, trust and transport settings come from \<open>tls.rs\<close>.
  On the server side \<open>proxy.rs\<close> forwards each HTTP/3 call to an HTTP/2 upstream, the program
  \<open>bin/gateway.rs\<close> configures it, and \<open>echo_server.rs\<close> is the peer of the tests. \<open>ffi.rs\<close> gives the
  client to the mobile applications. \<open>bin/udpcheck.rs\<close> is the reachability check for the field.

  Which theory models which part.
  \<^item> \<open>Transport_Base\<close>: the prelude. Panics (\<open>rust\<close>), polls, I/O errors, \<open>Duration\<close>, socket addresses,
    checked slices; list lemmas.
  \<^item> \<open>Interfaces\<close>: three contracts several components share. \<open>polling_loop\<close> is a loop that sleeps and looks
    until a look decides, interpreted on the loops of a rebind (\<open>waiting\<close>), of a hold (\<open>holding\<close>) and of the
    idle probe (\<open>idling\<close>); \<open>transition_invariant\<close> is an invariant of a step relation, interpreted on
    teardown, on handovers and on a proxied call; \<open>refinement\<close> extends it by an abstract relation that
    simulates the steps, interpreted on a proxied call (a pipe, \<open>Proxy_Pipe\<close>), on the whole call with its handler
    (\<open>whole_call\<close>), on the concurrent use of an FFI call (a call with atomic operations, \<open>Shared_Call\<close>) and
    on this use under flow control (\<open>flow\<close>).
  \<^item> \<open>Grpc\<close>: \<open>grpc.rs\<close>, \<open>encode_frame\<close> and \<open>take_frame\<close>. \<open>split_frames\<close> is the abstract decoder of a
    byte stream; the streams above are shown to refine it.
  \<^item> \<open>Salamander\<close>: \<open>salamander.rs\<close>. The loops over mutable slices, each in closed form (\<open>xor_stream\<close>),
    and exactly when they panic.
  \<^item> \<open>Spin_Free_Socket\<close>: \<open>spin_free_socket.rs\<close>. The two classifications, the counters, \<open>try_send\<close>,
    \<open>poll_recv\<close>. The kernel, tokio and quinn-udp are the list of their answers. \<open>Udp_Process\<close>: all the sockets of
    a process, which count into the two statics of this file.
  \<^item> \<open>Obf_Socket\<close>: \<open>obf_socket.rs\<close>. The trait \<open>AsyncUdpSocket\<close> is the locale \<open>udp_socket\<close>, whose laws are
    what a receive may report; the wrapper satisfies it again, so it is interpreted twice, as \<open>spin\<close> and
    as \<open>obfuscated\<close>. \<open>client_socket\<close> is the one socket builder. The wrapper takes a transmit for one
    datagram; it may, because it announces one segment per call (\<open>within_the_announced_segments\<close>).
    \<open>delivers\<close> is that one socket is handed what the other's quinn wrote.
  \<^item> \<open>Tls\<close>: \<open>tls.rs\<close>. Certificate persistence on a file map whose writes may fail half way, and the four
    configurations.
  \<^item> \<open>Client_State\<close>: the constants of \<open>client.rs\<close>, the records of a client, its endpoint and the process.
  \<^item> \<open>Client_Connect\<close>: \<open>resolve_all\<close>, \<open>dial_candidates\<close>, \<open>dial_plan\<close>, \<open>handshake\<close>, \<open>dial\<close>, \<open>connect\<close> and
    \<open>connect_obfuscated\<close>. \<open>dial_spec\<close> is what a dial promises: the first candidate that succeeds.
  \<^item> \<open>Client_Lifecycle\<close>: \<open>retire\<close>, \<open>close\<close>, \<open>Drop\<close> and the gauge \<open>live_connections\<close>; \<open>retire\<close> as a function and
    as the relation \<open>step\<close>, in which any number of threads connect, close and drop at once.
  \<^item> \<open>Client_Rebind\<close>: \<open>rebind\<close>, over the modelled socket.
  \<^item> \<open>Client_Stream\<close>: \<open>open_grpc_stream\<close> and the three stream types. The locale \<open>message_source\<close> is what
    receiving promises (messages of the byte stream in order, then its ending); it is interpreted on the
    whole stream and on its half.
  \<^item> \<open>Server_Endpoint\<close>: the endpoints the servers listen on, quinn's own or the one of \<open>obf_socket.rs\<close>.
  \<^item> \<open>Echo_Server\<close>, \<open>Proxy\<close>, \<open>Gateway\<close>, \<open>Udpcheck\<close>: the files of these names. In \<open>Proxy\<close> the sequential part of
    a call is \<open>proxy_main\<close>; its pump, its channel and its end run interleaved in \<open>call_step\<close>. \<open>Proxy_Run\<close> is the
    call as a whole, \<open>run_step\<close>: the handler from \<open>await\<close> to \<open>await\<close> (\<open>main_next\<close>) beside its pump, its channel and
    hyper; alone it is \<open>proxy_main\<close>, and the whole refines \<open>call_step\<close>. The programs are
    composed as the code composes them: \<open>gateway_main\<close> loads the certificate, reads the key, makes the endpoint
    and runs \<open>proxy_main\<close> for the calls of its connections; \<open>echo_main\<close> and \<open>check_main\<close> likewise.
  \<^item> \<open>Ffi\<close>: \<open>ffi.rs\<close> with \<open>stats_string\<close> of \<open>client.rs\<close>. The concurrent use of one call behind its two fair
    locks is \<open>ffi_step\<close>; it refines \<open>shared_step\<close> of \<open>Shared_Call\<close>. \<open>Ffi_Flow\<close>: the same call under
    the flow control of QUIC, where a send writes what it has credit for and waits with the lock held
    (\<open>paced_step\<close>); it refines \<open>ffi_step\<close>. \<open>Connect_Errors\<close>: the text an application
    gets when connecting fails, read off the answers of the network.
  \<^item> \<open>Bare_Client\<close>: what \<open>bin/probe.rs\<close> and \<open>bin/smoke.rs\<close> have in common, a client on quinn and h3 themselves:
    arguments, connection, request.
  \<^item> \<open>Echo_Probe\<close>: \<open>bin/probe.rs\<close> and the echo server program \<open>main.rs\<close>. \<open>Smoke\<close>: \<open>bin/smoke.rs\<close>.
    \<open>Ffi_Probe\<close>: \<open>bin/ffiprobe.rs\<close>, which reads its verdict back out of the text of \<open>stats_string\<close>.
  \<^item> \<open>Rust_Text\<close>: what the programs use of \<open>str\<close> slices, \<open>trim\<close>, \<open>split_whitespace\<close>, \<open>contains\<close>,
    \<open>from_str_radix\<close> and \<open>parse\<close>.

  How they connect. A datagram passes \<open>obfuscate\<close>, \<open>obf_try_send\<close> and \<open>spin_try_send\<close> on its way out,
  \<open>spin_poll_recv\<close>, \<open>obf_poll_recv\<close> and \<open>deobfuscate_in_place\<close> on its way in; \<open>rebind\<close> reads its proof of
  migration from the counter that \<open>spin_poll_recv\<close> keeps. A message passes \<open>encode_frame\<close> and a send half,
  reaches the proxy as chunks the pump forwards, and comes back through \<open>recv_loop\<close> and \<open>take_frame\<close>.
  The last section of this theory and \<open>End_To_End\<close> state what several of these promise together: \<open>End_To_End\<close>
  for concurrent tasks at one end of a call and the gateway's handler and pump at the other, at any moment.

  What the lemmas show. Salamander and framing: exact results, panics included, and round trips, also
  through two whole sockets. Sockets: one error per poll, every failure counted once over all sockets, no
  panic under the receive contract. Connecting: which address wins, within which budget, bound, pinned and
  obfuscated how, and that nothing stays open; and the error text, which names the first stage that failed
  and what happened to each address that was dialled, though not always the address itself.
  Teardown: complete, once, and the gauge correct in every interleaving. Rebind: it returns,
  and success has its proof. Streams: chunking is invisible, a split changes nothing, a cancelled receive
  loses nothing, concurrent tasks use a call as if every operation were atomic, a send that is parked half way
  never mixes its frame with another and waits for the sends before it and for credit alone. Proxy: a call is a pipe, the
  upstream gets a prefix of the client's bytes and all of them when the body ends cleanly; the response is
  relayed in order; every call comes to rest, the channel never blocks it for good, and the pump never
  changes what the handler answers. Gateway: a key that is set is never ignored, and a client with the same
  key and the gateway read each other's datagrams. Certificates: a complete pair is never overwritten.
  Programs: the probe passes exactly on an echo, and against the echo server; the smoke test reports the
  status the service gave; the verdicts of the idle probe and of the reachability check say what was
  observed, and a pinned check vouches for the pinned gateway only. Some lemmas state behaviour that the
  comments do not promise: a message of 4 GiB or more is cut, a truncated message looks like the end, a
  failed key write is served later, a rebind accepts a stranger's datagram, a broken client looks finished
  to the upstream, \<open>decode_hex\<close> may panic, an attempt that fails before the handshake or after it is
  reported without its address.

  Bounds and termination. Loops over buffers, candidates, chunks and answers are structural recursion on
  what they consume. \<open>rebind_wait\<close>, \<open>hold_loop\<close> and \<open>idle_loop\<close> are
  bounded by the clock only: they are partial functions with the value \<open>None\<close> for running for
  ever, and that they return is proved from the documented behaviour of \<open>tokio::time::sleep\<close>
  (at least its duration passes): 150 looks of 10 ms reach the budget of 1.5 s of a rebind, and a look every
  500 ms, or a sample every 5 s, reaches the end of a hold. No definition takes fuel. The channel of the
  proxy holds 64 frames. Counters are words that wrap.

  Parameters. BLAKE2b (\<open>blake\<close>; the lemmas use that a digest has 32 bytes), rcgen, the checks of rustls
  and quinn on a configuration and their defaults, \<open>SocketAddr\<close>'s parser, and the answers of the kernel,
  the resolver, tokio, quinn, h3 and hyper, SHA-256 and rustls's signature checks, with the time an awaited answer took.

  Not modelled. \<open>lib.rs\<close> and \<open>bin/uniffi-bindgen.rs\<close>, a module list and a call into UniFFI; logging and
  the lines the programs print on their way; \<open>endpoint_handle\<close> and \<open>connection_handle\<close>,
  which clone a handle; the settings of the tokio runtime in \<open>ffi.rs\<close>; the tests.

  Where the model waits less than the program. A write of h3 is answered at once (\<open>h3_write\<close>), by the client
  and by the gateway towards its client; only \<open>Ffi_Flow\<close> lets one wait for flow control. The dial and the
  HTTP/2 handshake of the gateway are answered at once, too; the upstream's response and its frames may stay out. A task that
  waits for the head or the trailers of a response is one that has not run yet. The close calls of quinn
  in \<open>retire\<close> do not block, and a stopped pump stops at once, not at its next await. A bind is answered
  by the address alone, so two candidates of one family get the same answer. Where a text of the program
  has U+2014, the model has a hyphen.
\<close>

section \<open>Properties that span the components\<close>

text \<open>
  The two directions of a call through the gateway, each on its own. A client sends messages and
  half-closes; its bytes reach the proxy in chunks of any size; when hyper has seen the end of a request
  body that was not aborted, what it was sent decodes to exactly the client's messages. When the proxied
  call has succeeded and the upstream's body holds the frames of its own messages, cut in any way, the
  client receives exactly those messages and then the end of the stream.
\<close>

theorem a_call_through_the_gateway_is_transparent:
  assumes client: "hw_answers (ss_inner ss) = []" "hw_written (ss_inner ss) = []"
      "list_all (\<lambda>m. length m < 2 ^ 32) ms"
    and there: "concat there = concat (map payload (hw_written (ss_inner (snd (half_finish (send_all ms ss))))))"
    and pump: "call_reaches (map Chunk there @ [End_of_data]) k" "k_ended k" "k_body k" "k_pump k \<noteq> Pump_aborted"
    and main: "proxy_main uri_ok ua upstream req s = (Ready (Inr ()), s', fate)"
      "takes_writes s" "hw_written s = []"
    and body: "concat (map payload (relayed (ua_frames ua))) = concat (map encode_frame answers)"
      "list_all (\<lambda>m. length m < 2 ^ 32) answers"
    and home: "half_ahead rs = (map Chunk cs @ [End_of_data], [])" "concat cs = concat (map payload (hw_written s'))"
  shows "split_frames (concat (k_sent k)) = (ms, [])
    \<and> fst (receives half_recv_message (Suc (length answers)) rs)
      = map (\<lambda>m. Ready (Inr (Some m))) answers @ [Ready (Inr None)]"
proof
  have "hw_answers (ss_inner (send_all ms ss)) = []"
    using client(1) by (induction ms arbitrary: ss) (simp_all add: half_send_message_def h3_write_def Let_def)
  then have "concat there = concat (map encode_frame ms)"
    using there client(2) send_all_writes [OF client(1), of ms]
    by (simp add: half_finish_def h3_write_def)
  moreover have "k_sent k = there"
  proof -
    have "pump_over (k_pump k)" "k_pump k = Pump_done \<Longrightarrow> there = k_sent k @ k_queue k" "k_queue k = []"
      using call_reaches_inv [OF pump(1)] pump(2,3) by (auto simp: call_inv_def)
    with pump(4) show ?thesis
      by (auto simp: pump_over_def)
  qed
  ultimately show "split_frames (concat (k_sent k)) = (ms, [])"
    using split_frames_encode [OF client(3), of "[]"] by (simp add: split_frames_stop)
  obtain status headers where "hw_written s' = Headers status headers # relayed (ua_frames ua) @ [Fin]"
    using proxied_response [OF main] by blast
  then have "concat cs = concat (map encode_frame answers)"
    using home(2) body(1) by simp
  from half.receives_sent [OF home(1) body(2) this]
  show "fst (receives half_recv_message (Suc (length answers)) rs)
      = map (\<lambda>m. Ready (Inr (Some m))) answers @ [Ready (Inr None)]"
    by simp
qed

theorem a_call_through_the_gateway_is_transparent_witness:
  "split_frames (encode_frame [5]) = ([[5]], [])
   \<and> fst (receives half_recv_message 2 (sample_half [Chunk (encode_frame [6]), End_of_data]))
     = [Ready (Inr (Some [6])), Ready (Inr None)]"
proof -
  let ?ua = "sample_upstream [Frame_data (encode_frame [6]), Frame_trailers [], Body_end]"
  let ?req = "\<lparr>pr_method = ''POST'', pr_path = Some ''/S/M'', pr_headers = []\<rparr>"
  let ?s = "\<lparr>hw_answers = [], hw_written = []\<rparr>"
  let ?s' = "\<lparr>hw_answers = [], hw_written = [Headers 200 [], Data (encode_frame [6]), Trailers [], Fin]\<rparr>"
  let ?k = "\<lparr>k_reads = [], k_pump = Pump_done, k_queue = [], k_body = True, k_sent = [encode_frame [5]],
     k_ended = True, k_main = Relaying\<rparr>"
  have k: "call_reaches (map Chunk [encode_frame [5]] @ [End_of_data]) ?k"
    using one_chunk_run [of End_of_data "[]" "encode_frame [5]"] by simp
  have run: "proxy_main (\<lambda>_. None) ?ua ''envoy:8080'' ?req ?s = (Ready (Inr ()), ?s', Stopped_by_call)"
    by (simp add: proxy_main_def build_upstream_def h3_write_def sample_upstream_def)
  have sent: "concat [encode_frame [5]] = concat (map payload
      (hw_written (ss_inner (snd (half_finish (send_all [[5]] \<lparr>ss_inner = ?s\<rparr>))))))"
    by (simp add: half_finish_def half_send_message_def h3_write_def)
  note call = a_call_through_the_gateway_is_transparent [OF _ _ _ sent k _ _ _ run, of "[[6]]"
      "sample_half [Chunk (encode_frame [6]), End_of_data]" "[encode_frame [6]]"]
  have two: "Suc (length [[6 :: u8]]) = 2"
    by simp
  show ?thesis
    using call unfolding two by (simp add: takes_writes_def sample_upstream_def sample_half_def sample_recv_def
        half_ahead_def)
qed

text \<open>
  C6: A call through the gateway is transparent in both directions. A client sends messages and
  half-closes; its bytes reach the proxy in chunks of any size, and the handler, its pump, the channel and
  hyper run in any interleaving. Where the handler has returned \<open>Ok\<close> and hyper has seen the end of a request
  body that was not aborted, what the upstream was sent decodes to exactly the client's messages; and if
  the upstream's body held the frames of its own messages, cut in any way, the client receives exactly
  those messages and then the end of the stream.
\<close>

theorem a_whole_call_is_transparent:
  assumes client: "hw_answers (ss_inner ss) = []" "hw_written (ss_inner ss) = []"
      "list_all (\<lambda>m. length m < 2 ^ 32) ms"
    and there: "concat there = concat (map payload (hw_written (ss_inner (snd (half_finish (send_all ms ss))))))"
    and run: "run_reaches uri_ok ua upstream req (map Chunk there @ [End_of_data]) s w"
      "rn_stage w = Returned (Inr ()) fate" "takes_writes s" "hw_written s = []"
    and up: "rn_call w = Some k" "k_ended k" "k_body k" "k_pump k \<noteq> Pump_aborted"
    and body: "concat (map payload (relayed (ua_frames ua))) = concat (map encode_frame answers)"
      "list_all (\<lambda>m. length m < 2 ^ 32) answers"
    and home: "half_ahead rs = (map Chunk cs @ [End_of_data], [])"
      "concat cs = concat (map payload (hw_written (rn_send w)))"
  shows "split_frames (concat (k_sent k)) = (ms, [])
    \<and> fst (receives half_recv_message (Suc (length answers)) rs)
      = map (\<lambda>m. Ready (Inr (Some m))) answers @ [Ready (Inr None)]"
proof -
  have "call_reaches (map Chunk there @ [End_of_data]) k"
    using run_reaches_call [OF run(1)] up(1) by (simp add: call_of_def)
  moreover have "proxy_main uri_ok ua upstream req s = (Ready (Inr ()), rn_send w, fate)"
    by (rule run_inv_returned [OF run_reaches_inv [OF run(1)] run(2)])
  ultimately show ?thesis
    using a_call_through_the_gateway_is_transparent [OF client there _ up(2-4) _ run(3,4) body home] by blast
qed

theorem a_whole_call_is_transparent_witness:
  "split_frames (concat [encode_frame [5]]) = ([[5]], [])
   \<and> fst (receives half_recv_message 2 (sample_half [Chunk (encode_frame [6]), End_of_data]))
     = [Ready (Inr (Some [6])), Ready (Inr None)]"
proof -
  let ?w = "sample_whole_run (encode_frame [5]) (encode_frame [6])"
  let ?ss = "\<lparr>ss_inner = \<lparr>hw_answers = [], hw_written = []\<rparr>\<rparr>"
  have sent: "concat [encode_frame [5]] = concat (map payload
      (hw_written (ss_inner (snd (half_finish (send_all [[5]] ?ss))))))"
    by (simp add: half_finish_def half_send_message_def h3_write_def)
  have run: "run_reaches (\<lambda>_. None) (sample_answers (encode_frame [6])) ''envoy:8080'' sample_request
      (map Chunk [encode_frame [5]] @ [End_of_data]) \<lparr>hw_answers = [], hw_written = []\<rparr> ?w"
    using sample_whole_run_reached [of "encode_frame [6]" "encode_frame [5]"] by simp
  have two: "Suc (length [[6 :: u8]]) = 2"
    by simp
  note call = a_whole_call_is_transparent [OF _ _ _ sent run, of Stopped_by_call "the (rn_call ?w)" "[[6]]"
      "sample_half [Chunk (encode_frame [6]), End_of_data]" "[encode_frame [6]]"]
  show ?thesis
    using call unfolding two by (simp add: takes_writes_def sample_upstream_def sample_half_def sample_recv_def
        half_ahead_def sample_whole_run_def)
qed

text \<open>
  C19: A gateway given the hexadecimal text of a key and a client connected with that key understand each
  other, for as long as the client lives. After any number of handovers, whatever came of them, every
  transmit the client's quinn hands over reaches the kernel in the wire form of \<open>wire_transmit\<close>, and what
  either side's quinn wrote is what the other's is handed, datagram by datagram, whatever the salts.
\<close>

theorem client_and_gateway_share_the_key:
  assumes "gateway_main q ck fa rcgen env parse_addr px fs = Ret (Inr h, fs')"
    and "env ''QUIC_OBF_PSK'' = Some (encode_hex psk)" and "psk \<noteq> []"
    and "connect_obfuscated q' ck' net host_port server_name cert psk p = Ret (Inr i, p0)"
    and "(rebinds i)\<^sup>*\<^sup>* p0 p'" and "digest32 blake"
    and "cs = ep_sock (p_endpoints p' ! qc_endpoint (p_clients p' ! i))"
  shows "\<exists>gs. se_socket (ph_endpoint h) = Own_socket gs \<and> delivers blake cs gs \<and> delivers blake gs cs
    \<and> (\<forall>salt. length salt = SALT_LEN \<longrightarrow>
         endpoint_try_send emsgsize blake salt cs tr =
           (let (r, base) = spin_try_send emsgsize (cs_base cs) (wire_transmit blake salt cs tr)
            in Ret (r, cs\<lparr>cs_base := base\<rparr>))
         \<and> tx_contents (wire_transmit blake salt cs tr)
             = wire_of blake (salamander_new psk) salt (tx_contents tr))"
proof -
  have "pinned (Some (salamander_new psk)) net server_name cert p0 i"
    by (rule connect_obfuscated_pinned [OF assms(4)])
  then have "keeps_recipe i p0 \<and> sr_obf (qc_recipe (p_clients p0 ! i)) = Some (salamander_new psk)"
    by (simp add: pinned_def keeps_recipe_def Let_def)
  with handovers.reached [OF assms(5), of "p_clients p0"] have cs: "cs_obf cs = Some (salamander_new psk)"
    unfolding keeps_recipe_def assms(7) by metis
  moreover obtain base where "se_socket (ph_endpoint h) = Own_socket \<lparr>cs_obf = Some (salamander_new psk), cs_base = base\<rparr>"
    using gateway_listens [OF assms(1) obf_psk_of_hex [of env, OF assms(2,3)]] by auto
  ultimately show ?thesis
    using same_recipe_delivers [OF assms(6)] endpoint_try_send_wire [OF assms(6)]
    by (simp add: wire_transmit_contents on_wire_def)
qed

theorem client_and_gateway_share_the_key_witness:
  "\<exists>h fs' p' gs. gateway_main sample_quinn sample_checks sample_fs (\<lambda>_. Inr ([1], [2]))
      [''QUIC_OBF_PSK'' \<mapsto> encode_hex [1, 2]] (\<lambda>_. None) sample_proxy_env Map.empty = Ret (Inr h, fs')
    \<and> connect_obfuscated sample_quinn sample_checks (sample_net 0) ''h:443'' ''h'' [7] [1, 2] no_proc
      = Ret (Inr 0, p')
    \<and> se_socket (ph_endpoint h) = Own_socket gs
    \<and> delivers (\<lambda>_. replicate 32 0) (ep_sock (p_endpoints p' ! qc_endpoint (p_clients p' ! 0))) gs"
proof -
  obtain p' where client: "connect_obfuscated sample_quinn sample_checks (sample_net 0) ''h:443'' ''h'' [7] [1, 2]
      no_proc = Ret (Inr 0, p')"
    using sample_connect_obfuscated [of 0] by blast
  obtain h fs' where gateway: "gateway_main sample_quinn sample_checks sample_fs (\<lambda>_. Inr ([1], [2]))
      [''QUIC_OBF_PSK'' \<mapsto> encode_hex [1, 2]] (\<lambda>_. None) sample_proxy_env Map.empty = Ret (Inr h, fs')"
    using sample_gateway [of "[1, 2]"] by auto
  have psk: "[''QUIC_OBF_PSK'' \<mapsto> encode_hex [1, 2]] ''QUIC_OBF_PSK'' = Some (encode_hex [1, 2])"
    by simp
  have "digest32 (\<lambda>_. replicate 32 0)"
    by (simp add: digest32_def KEY_LEN_def)
  from client_and_gateway_share_the_key [OF gateway psk _ client rtranclp.rtrancl_refl this refl]
  show ?thesis
    using gateway client by blast
qed

end
